theory Spec2Isabelle
  imports Complex_Main "HOL-Library.Sublist"
begin

section \<open>The media uploader of \<^verbatim>\<open>src/media-uploader.tsx\<close>\<close>

text \<open>
  The component \<^verbatim>\<open>MediaUploader\<close> keeps four pieces of React state
  (\<^verbatim>\<open>uploadedFiles\<close>, \<^verbatim>\<open>displayExistingFiles\<close>, \<^verbatim>\<open>removedImageIds\<close>,
  \<^verbatim>\<open>undoableRemovals\<close>), starts one interval per simulated upload and one interval for the
  removal sweep, and reports to its host through four callbacks. The model below is a state
  machine: every event handler of the source is a function from state to state, every
  \<^verbatim>\<open>useEffect\<close> is a function run by \<open>commit\<close> after the handler, and the callbacks
  append to a log.

  Conventions of the model:
  \<^item> Counts and sizes are \<open>nat\<close> or \<open>int\<close>. The progress value and the result of
    \<^verbatim>\<open>Math.random()\<close> are IEEE doubles: they are the \<open>real\<close> numbers that the
    platform's rounding \<open>toDouble\<close> leaves unchanged, and every sum and product of the source
    is the exact result rounded by \<open>toDouble\<close>. The random draws, the clock
    \<^verbatim>\<open>Date.now()\<close> and the generated identifiers are inputs of the events.
  \<^item> One event is handled at a time and is followed by one render and its effects; an updater
    function passed to a state setter is applied exactly once (React outside strict mode). The
    awaited previews of \<^verbatim>\<open>processFiles\<close> resolve before the next event is handled.
  \<^item> Every optional callback is supplied by the host; the log records each call.
\<close>

subsection \<open>Data\<close>

text \<open>The browser's \<^verbatim>\<open>File\<close>: the fields the component reads.\<close>

record File =
  f_name :: string
  f_size :: nat
  f_type :: string

text \<open>\<^verbatim>\<open>interface UploadedFile\<close>; the constant field \<^verbatim>\<open>isNew: true\<close> is the constructor
  \<open>New\<close> of \<open>FileItem\<close> below. An absent \<^verbatim>\<open>preview\<close> or \<^verbatim>\<open>error\<close> is \<open>None\<close>.\<close>

record UploadedFile =
  uf_id :: string
  uf_name :: string
  uf_file :: File
  uf_preview :: "string option"
  uf_progress :: real
  uf_error :: "string option"
  uf_uploaded :: bool

text \<open>Modelled from the spec: the type \<^verbatim>\<open>MediaType\<close> is imported from
  \<^verbatim>\<open>@/types/media-type\<close>, which is not among the sources. The spec gives a remote file
  record a host-assigned numeric identifier, a display name, a size, a MIME type and an access
  URL; the component reads them as \<^verbatim>\<open>id\<close>, \<^verbatim>\<open>file_name\<close>, \<^verbatim>\<open>size\<close>,
  \<^verbatim>\<open>mime_type\<close> and \<^verbatim>\<open>url\<close>.\<close>

record MediaType =
  mt_id :: int
  mt_file_name :: string
  mt_size :: "nat option"
  mt_mime_type :: "string option"
  mt_url :: "string option"

text \<open>\<^verbatim>\<open>interface DisplayFile extends MediaType { isNew: false }\<close>: the same record, tagged
  by the constructor \<open>Existing\<close> of \<open>FileItem\<close>.\<close>

type_synonym DisplayFile = MediaType

record UndoableRemoval =
  ur_id :: int
  ur_file :: DisplayFile
  ur_removedAt :: int

datatype FileItem = Existing DisplayFile | New UploadedFile

datatype FileTypeCategory = image | video | audio | document | all

fun FILE_TYPE_MAPPINGS :: "FileTypeCategory \<Rightarrow> string" where
  "FILE_TYPE_MAPPINGS image = ''image/*''"
| "FILE_TYPE_MAPPINGS video = ''video/*''"
| "FILE_TYPE_MAPPINGS audio = ''audio/*''"
| "FILE_TYPE_MAPPINGS document = ''.pdf,.doc,.docx,.txt,.rtf,.odt''"
| "FILE_TYPE_MAPPINGS all = ''image/*,video/*,audio/*,.pdf,.doc,.docx,.txt,.rtf,.odt''"

text \<open>The props the handlers read, and the platform they run on. \<open>regexTest\<close> stands for
  the regular-expression engine (\<^verbatim>\<open>new RegExp(src).test(subject)\<close>), \<open>readAsDataURL\<close> for
  the \<^verbatim>\<open>FileReader\<close> (\<open>None\<close> when reading fails), \<open>trim\<close> and \<open>toLowerCase\<close> for
  \<^verbatim>\<open>String.prototype.trim\<close> and \<^verbatim>\<open>String.prototype.toLowerCase\<close> (both follow the
  Unicode tables), and \<open>toDouble\<close> for the rounding of a real number to the nearest IEEE
  double. Every accept pattern is taken to be a regular expression the engine accepts.
  \<open>maxFiles\<close> and \<open>maxSize\<close> are whole numbers. The prop \<^verbatim>\<open>existingFiles\<close> can change
  over time and is part of the state.\<close>

record props =
  accept :: "string option"
  fileTypes :: "FileTypeCategory list"
  maxFiles :: int
  maxSize :: int
  disabled :: bool
  allowRemove :: bool
  singleFile :: bool
  autoUpload :: bool
  regexTest :: "string \<Rightarrow> string \<Rightarrow> bool"
  readAsDataURL :: "File \<Rightarrow> string option"
  trim :: "string \<Rightarrow> string"
  toLowerCase :: "string \<Rightarrow> string"
  toDouble :: "real \<Rightarrow> real"

text \<open>The calls made to the host.\<close>

datatype callback =
    FilesChange "File list"
  | UploadComplete "UploadedFile list"
  | Error string
  | ExistingFileRemove MediaType

text \<open>The state of one mounted component: the four \<^verbatim>\<open>useState\<close> cells, the current
  \<^verbatim>\<open>existingFiles\<close> prop, the running intervals and the call log.
  \<^item> \<open>uploadIntervals\<close>: one entry per interval created by \<^verbatim>\<open>simulateUpload\<close> and not
    yet cleared, with the file identifier and the local variable \<^verbatim>\<open>progress\<close> of its closure;
  \<^item> \<open>sweepInterval\<close>: whether the interval of the removal effect exists;
  \<^item> \<open>sweepDeps\<close>: the dependency \<^verbatim>\<open>undoableRemovals.length\<close> the removal effect last ran
    with (\<open>None\<close> before the first run);
  \<^item> \<open>uploadedFilesChanged\<close>, \<open>existingFilesChanged\<close>: whether \<^verbatim>\<open>uploadedFiles\<close>
    (\<^verbatim>\<open>existingFiles\<close>) has been given a new array since the last run of the effects, which is
    what React compares the dependencies of an effect by.\<close>

record state =
  uploadedFiles :: "UploadedFile list"
  displayExistingFiles :: "DisplayFile list"
  removedImageIds :: "int list"
  undoableRemovals :: "UndoableRemoval list"
  existingFiles :: "MediaType list"
  uploadIntervals :: "(string \<times> real) list"
  sweepInterval :: bool
  sweepDeps :: "nat option"
  uploadedFilesChanged :: bool
  existingFilesChanged :: bool
  calls :: "callback list"

subsection \<open>Strings\<close>

text \<open>A template literal prints a whole number of magnitude below \<^verbatim>\<open>1e21\<close> with all its
  digits; \<open>show_int\<close> is that conversion (larger magnitudes, which a template literal prints
  in exponent form, are not meant).\<close>

fun show_nat :: "nat \<Rightarrow> string" where
  "show_nat n = (if n < 10 then [''0123456789'' ! n]
                 else show_nat (n div 10) @ [''0123456789'' ! (n mod 10)])"

declare show_nat.simps [simp del]

definition show_int :: "int \<Rightarrow> string" where
  "show_int i = (if i < 0 then CHR ''-'' # show_nat (nat (- i)) else show_nat (nat i))"

text \<open>\<^verbatim>\<open>String.prototype.split(",")\<close>: the empty string gives one empty piece.\<close>

fun split_on :: "char \<Rightarrow> string \<Rightarrow> string list" where
  "split_on c [] = [[]]"
| "split_on c (x # xs) =
     (if x = c then [] # split_on c xs
      else (case split_on c xs of [] \<Rightarrow> [[x]] | w # ws \<Rightarrow> (x # w) # ws))"

text \<open>\<^verbatim>\<open>Array.prototype.join(",")\<close>.\<close>

fun join :: "string \<Rightarrow> string list \<Rightarrow> string" where
  "join sep [] = []"
| "join sep [x] = x"
| "join sep (x # y # ys) = x @ sep @ join sep (y # ys)"

text \<open>\<^verbatim>\<open>startsWith\<close> and \<^verbatim>\<open>endsWith\<close>, and \<^verbatim>\<open>replace("*", ".*")\<close>, which replaces
  the first star only.\<close>

definition startsWith :: "string \<Rightarrow> string \<Rightarrow> bool" where
  "startsWith s p = (take (length p) s = p)"

definition endsWith :: "string \<Rightarrow> string \<Rightarrow> bool" where
  "endsWith s p = (length p \<le> length s \<and> drop (length s - length p) s = p)"

fun replaceStar :: "string \<Rightarrow> string" where
  "replaceStar [] = []"
| "replaceStar (c # cs) = (if c = CHR ''*'' then ''.*'' @ cs else c # replaceStar cs)"

text \<open>A JavaScript value of type \<^verbatim>\<open>string | undefined\<close> is truthy when it is a non-empty
  string.\<close>

definition truthy :: "string option \<Rightarrow> bool" where
  "truthy e = (case e of None \<Rightarrow> False | Some v \<Rightarrow> v \<noteq> [])"

subsection \<open>Validation and preview\<close>

definition acceptString :: "props \<Rightarrow> string" where
  "acceptString P =
     (if truthy (accept P) then the (accept P)
      else if all \<in> set (fileTypes P) then FILE_TYPE_MAPPINGS all
      else join '','' (map FILE_TYPE_MAPPINGS (fileTypes P)))"

definition validateFile :: "props \<Rightarrow> File \<Rightarrow> string option" where
  "validateFile P file =
     (if int (f_size file) > maxSize P * 1024 * 1024
      then Some (''File size must be less than '' @ show_int (maxSize P) @ ''MB'')
      else if acceptString P \<noteq> ''*'' \<and>
              \<not> list_ex (\<lambda>type.
                   let trimmedType = trim P type in
                   if startsWith trimmedType ''.''
                   then endsWith (toLowerCase P (f_name file)) (toLowerCase P trimmedType)
                   else regexTest P (''^'' @ replaceStar trimmedType @ ''$'') (f_type file))
                 (split_on CHR '','' (acceptString P))
      then Some ''File type not supported''
      else None)"

definition generatePreview :: "props \<Rightarrow> File \<Rightarrow> string option" where
  "generatePreview P file =
     (if startsWith (f_type file) ''image/'' then readAsDataURL P file else None)"

subsection \<open>State setters, callbacks and effects\<close>

definition callback :: "callback \<Rightarrow> state \<Rightarrow> state" where
  "callback c s = s\<lparr>calls := calls s @ [c]\<rparr>"

text \<open>Every value the source passes to \<^verbatim>\<open>setUploadedFiles\<close> is a fresh array (a literal,
  a spread, \<^verbatim>\<open>filter\<close> or \<^verbatim>\<open>map\<close>), so each call changes the dependency of the
  completion effect.\<close>

definition setUploadedFiles :: "UploadedFile list \<Rightarrow> state \<Rightarrow> state" where
  "setUploadedFiles v s = s\<lparr>uploadedFiles := v, uploadedFilesChanged := True\<rparr>"

definition setDisplayExistingFiles :: "DisplayFile list \<Rightarrow> state \<Rightarrow> state" where
  "setDisplayExistingFiles v s = s\<lparr>displayExistingFiles := v\<rparr>"

definition setRemovedImageIds :: "int list \<Rightarrow> state \<Rightarrow> state" where
  "setRemovedImageIds v s = s\<lparr>removedImageIds := v\<rparr>"

definition setUndoableRemovals :: "UndoableRemoval list \<Rightarrow> state \<Rightarrow> state" where
  "setUndoableRemovals v s = s\<lparr>undoableRemovals := v\<rparr>"

text \<open>The effect on \<^verbatim>\<open>[existingFiles]\<close> (source lines 120 to 131): the displayed copy is
  kept when it has the length of the new list and the same identifier at every position, and
  replaced otherwise.\<close>

definition syncExistingFiles :: "state \<Rightarrow> state" where
  "syncExistingFiles s =
     (let mapped = existingFiles s; prev = displayExistingFiles s in
      if length prev = length mapped \<and>
         list_all (\<lambda>i. mt_id (prev ! i) = mt_id (mapped ! i)) [0..<length prev]
      then s
      else setDisplayExistingFiles mapped s)"

text \<open>\<^verbatim>\<open>allNewUploaded\<close> and the effect on \<^verbatim>\<open>[allNewUploaded, uploadedFiles]\<close> (source
  lines 342 to 348).\<close>

definition allNewUploaded :: "state \<Rightarrow> bool" where
  "allNewUploaded s =
     (length (uploadedFiles s) > 0 \<and>
      list_all (\<lambda>f. uf_uploaded f \<or> truthy (uf_error f)) (uploadedFiles s))"

definition uploadCompleteEffect :: "state \<Rightarrow> state" where
  "uploadCompleteEffect s =
     (if allNewUploaded s \<and> list_ex uf_uploaded (uploadedFiles s)
      then callback (UploadComplete (filter uf_uploaded (uploadedFiles s))) s
      else s)"

text \<open>The effect on \<^verbatim>\<open>[undoableRemovals.length]\<close> (source lines 351 to 371): its cleanup
  clears the interval of the previous run; its body returns at once when nothing is pending
  and creates the interval otherwise.\<close>

definition removalTimerEffect :: "state \<Rightarrow> state" where
  "removalTimerEffect s =
     (let cleaned = s\<lparr>sweepInterval := False\<rparr> in
      if length (undoableRemovals s) = 0 then cleaned
      else cleaned\<lparr>sweepInterval := True\<rparr>)"

text \<open>After a render React runs the effects whose dependencies changed, in the order of their
  declaration.\<close>

definition commit :: "state \<Rightarrow> state" where
  "commit s0 =
     (let s1 = (if existingFilesChanged s0
                then syncExistingFiles (s0\<lparr>existingFilesChanged := False\<rparr>) else s0);
          s2 = (if uploadedFilesChanged s1
                then uploadCompleteEffect (s1\<lparr>uploadedFilesChanged := False\<rparr>) else s1);
          s3 = (if sweepDeps s2 \<noteq> Some (length (undoableRemovals s2))
                then (removalTimerEffect s2)\<lparr>sweepDeps := Some (length (undoableRemovals s2))\<rparr>
                else s2)
      in s3)"

text \<open>Mounting: the \<^verbatim>\<open>useState\<close> initial values, then the first run of every effect.\<close>

definition initial :: "MediaType list \<Rightarrow> state" where
  "initial host =
     \<lparr>uploadedFiles = [], displayExistingFiles = [], removedImageIds = [],
      undoableRemovals = [], existingFiles = host, uploadIntervals = [],
      sweepInterval = False, sweepDeps = None, uploadedFilesChanged = True,
      existingFilesChanged = True, calls = []\<rparr>"

definition mount :: "MediaType list \<Rightarrow> state" where
  "mount host = commit (initial host)"

subsection \<open>The simulated upload\<close>

text \<open>\<^verbatim>\<open>simulateUpload(fileId)\<close> (source lines 181 to 193) sets its local \<^verbatim>\<open>progress\<close>
  to 0 and creates an interval.\<close>

definition simulateUpload :: "string \<Rightarrow> state \<Rightarrow> state" where
  "simulateUpload fileId s = s\<lparr>uploadIntervals := uploadIntervals s @ [(fileId, 0)]\<rparr>"

text \<open>One run of the interval's callback with the draw \<open>r\<close> of \<^verbatim>\<open>Math.random()\<close>, on
  the local \<open>progress\<close> and the list \<^verbatim>\<open>prev\<close>: the new local progress, whether the
  interval was cleared, and the new list. \<^verbatim>\<open>progress += Math.random() * 25\<close> is a double
  product followed by a double sum, each the exact result rounded by \<open>rnd\<close>.\<close>

definition uploadTick ::
  "(real \<Rightarrow> real) \<Rightarrow> string \<Rightarrow> real \<Rightarrow> real \<Rightarrow> UploadedFile list \<Rightarrow>
     real \<times> bool \<times> UploadedFile list" where
  "uploadTick rnd fileId progress r prev =
     (let progress' = rnd (progress + rnd (r * 25)) in
      if progress' \<ge> 100
      then (100, True,
            map (\<lambda>f. if uf_id f = fileId then f\<lparr>uf_progress := 100, uf_uploaded := True\<rparr> else f) prev)
      else (progress', False,
            map (\<lambda>f. if uf_id f = fileId then f\<lparr>uf_progress := progress'\<rparr> else f) prev))"

text \<open>The same callback on the component state, for the \<open>k\<close>-th running interval
  (\<open>k\<close> below the number of running intervals, as \<open>enabled\<close> requires).\<close>

definition uploadIntervalTick :: "props \<Rightarrow> nat \<Rightarrow> real \<Rightarrow> state \<Rightarrow> state" where
  "uploadIntervalTick P k r s =
     (case uploadIntervals s ! k of (fileId, progress) \<Rightarrow>
        (case uploadTick (toDouble P) fileId progress r (uploadedFiles s) of
           (progress', cleared, files') \<Rightarrow>
           setUploadedFiles files'
             (s\<lparr>uploadIntervals :=
                  (if cleared then take k (uploadIntervals s) @ drop (Suc k) (uploadIntervals s)
                   else (uploadIntervals s)[k := (fileId, progress')])\<rparr>)))"

text \<open>One interval followed on its own from \<open>progress\<close>, over the successive draws \<open>rs\<close>:
  the list \<^verbatim>\<open>uploadedFiles\<close> after each tick. The interval is cleared at the tick that
  reaches 100, so the trace ends there.\<close>

fun uploadTrace ::
  "(real \<Rightarrow> real) \<Rightarrow> string \<Rightarrow> real \<Rightarrow> real list \<Rightarrow> UploadedFile list \<Rightarrow>
     UploadedFile list list" where
  "uploadTrace rnd fileId progress [] prev = []"
| "uploadTrace rnd fileId progress (r # rs) prev =
     (case uploadTick rnd fileId progress r prev of (progress', cleared, files') \<Rightarrow>
        files' # (if cleared then [] else uploadTrace rnd fileId progress' rs files'))"

subsection \<open>The handlers\<close>

definition getTotalFileCount :: "state \<Rightarrow> nat" where
  "getTotalFileCount s = length (displayExistingFiles s) + length (uploadedFiles s)"

text \<open>The record \<^verbatim>\<open>processFiles\<close> builds for the \<open>i\<close>-th processed file; \<open>newId i\<close> is
  the identifier \<^verbatim>\<open>Math.random().toString(36).slice(2, 11)\<close> drawn for it, and
  \<^verbatim>\<open>error || undefined\<close> turns a falsy validation result into an absent error.\<close>

definition newUploadedFile :: "props \<Rightarrow> (nat \<Rightarrow> string) \<Rightarrow> nat \<Rightarrow> File \<Rightarrow> UploadedFile" where
  "newUploadedFile P newId i file =
     \<lparr>uf_id = newId i, uf_name = f_name file, uf_file = file,
      uf_preview = generatePreview P file, uf_progress = 0,
      uf_error = (if truthy (validateFile P file) then validateFile P file else None),
      uf_uploaded = False\<rparr>"

text \<open>The loop over \<^verbatim>\<open>filesToProcess\<close> (source lines 215 to 229), \<open>i\<close> counting the
  files already processed.\<close>

fun buildUploadedFiles :: "props \<Rightarrow> (nat \<Rightarrow> string) \<Rightarrow> nat \<Rightarrow> File list \<Rightarrow> UploadedFile list" where
  "buildUploadedFiles P newId i [] = []"
| "buildUploadedFiles P newId i (file # rest) =
     newUploadedFile P newId i file # buildUploadedFiles P newId (Suc i) rest"

text \<open>\<^verbatim>\<open>forEach\<close> starting the simulation of the files that satisfy \<open>p\<close>.\<close>

definition startUploads :: "(UploadedFile \<Rightarrow> bool) \<Rightarrow> UploadedFile list \<Rightarrow> state \<Rightarrow> state" where
  "startUploads p files s = foldl (\<lambda>st f. if p f then simulateUpload (uf_id f) st else st) s files"

text \<open>\<^verbatim>\<open>processFiles\<close> (source lines 197 to 251).\<close>

definition processFiles :: "props \<Rightarrow> (nat \<Rightarrow> string) \<Rightarrow> File list \<Rightarrow> state \<Rightarrow> state" where
  "processFiles P newId fileArray s =
     (let currentCount = int (getTotalFileCount s);
          availableSlots = maxFiles P - currentCount in
      if singleFile P \<and> currentCount > 0
      then callback (Error ''Only one file allowed. Remove existing file first.'') s
      else if availableSlots \<le> 0
      then callback (Error (''Maximum '' @ show_int (maxFiles P) @ '' files allowed'')) s
      else
        let filesToProcess = take (nat availableSlots) fileArray;
            newUploadedFiles = buildUploadedFiles P newId 0 filesToProcess;
            s1 = (if singleFile P
                  then setDisplayExistingFiles [] (setUploadedFiles newUploadedFiles s)
                  else setUploadedFiles (uploadedFiles s @ newUploadedFiles) s);
            s2 = (if autoUpload P
                  then startUploads (\<lambda>f. \<not> truthy (uf_error f)) newUploadedFiles s1
                  else s1);
            validFiles = map uf_file (filter (\<lambda>f. \<not> truthy (uf_error f)) newUploadedFiles)
        in if length validFiles > 0
           then callback (FilesChange (map uf_file (uploadedFiles s) @ validFiles)) s2
           else s2)"

text \<open>\<^verbatim>\<open>removeNewFile\<close> (source lines 276 to 282).\<close>

definition removeNewFile :: "string \<Rightarrow> state \<Rightarrow> state" where
  "removeNewFile fileId s =
     (let updated = filter (\<lambda>f. uf_id f \<noteq> fileId) (uploadedFiles s) in
      setUploadedFiles updated (callback (FilesChange (map uf_file updated)) s))"

text \<open>\<^verbatim>\<open>removeExistingFile\<close> (source lines 284 to 296); \<open>now\<close> is \<^verbatim>\<open>Date.now()\<close>.\<close>

definition removeExistingFile :: "DisplayFile \<Rightarrow> int \<Rightarrow> state \<Rightarrow> state" where
  "removeExistingFile file now s =
     (let undoableRemoval = \<lparr>ur_id = mt_id file, ur_file = file, ur_removedAt = now\<rparr>;
          s1 = setUndoableRemovals (undoableRemovals s @ [undoableRemoval]) s;
          s2 = setDisplayExistingFiles
                 (filter (\<lambda>f. mt_id f \<noteq> mt_id file) (displayExistingFiles s1)) s1
      in callback (ExistingFileRemove file) s2)"

text \<open>\<^verbatim>\<open>undoRemoval\<close> (source lines 298 to 304).\<close>

definition undoRemoval :: "int \<Rightarrow> state \<Rightarrow> state" where
  "undoRemoval fileId s =
     (case find (\<lambda>r. ur_id r = fileId) (undoableRemovals s) of
        Some undoableRemoval \<Rightarrow>
          setUndoableRemovals (filter (\<lambda>r. ur_id r \<noteq> fileId) (undoableRemovals s))
            (setDisplayExistingFiles (displayExistingFiles s @ [ur_file undoableRemoval]) s)
      | None \<Rightarrow> s)"

text \<open>\<^verbatim>\<open>confirmRemoval\<close> (source lines 306 to 309).\<close>

definition confirmRemoval :: "int \<Rightarrow> state \<Rightarrow> state" where
  "confirmRemoval fileId s =
     setRemovedImageIds (removedImageIds s @ [fileId])
       (setUndoableRemovals (filter (\<lambda>r. ur_id r \<noteq> fileId) (undoableRemovals s)) s)"

text \<open>\<^verbatim>\<open>clearAll\<close> (source lines 311 to 318); the file input's value is not modelled.\<close>

definition clearAll :: "state \<Rightarrow> state" where
  "clearAll s = callback (FilesChange []) (setDisplayExistingFiles [] (setUploadedFiles [] s))"

text \<open>\<^verbatim>\<open>manualUpload\<close> (source lines 320 to 326).\<close>

definition manualUpload :: "state \<Rightarrow> state" where
  "manualUpload s =
     startUploads (\<lambda>f. \<not> truthy (uf_error f) \<and> \<not> uf_uploaded f) (uploadedFiles s) s"

text \<open>The callback of the removal interval (source lines 354 to 368): \<^verbatim>\<open>prev.filter\<close>
  visits the entries in order; an entry whose time left is not positive is dropped and its
  identifier is appended to \<^verbatim>\<open>removedImageIds\<close>. The pair is the kept entries and the
  identifiers appended.\<close>

fun sweep :: "int \<Rightarrow> UndoableRemoval list \<Rightarrow> UndoableRemoval list \<times> int list" where
  "sweep now [] = ([], [])"
| "sweep now (removal # rest) =
     (let timeLeft = ur_removedAt removal + 10000 - now;
          (updated, ids) = sweep now rest
      in if timeLeft \<le> 0 then (updated, ur_id removal # ids) else (removal # updated, ids))"

definition sweepTick :: "int \<Rightarrow> state \<Rightarrow> state" where
  "sweepTick now s =
     (case sweep now (undoableRemovals s) of (updated, ids) \<Rightarrow>
        setUndoableRemovals updated (setRemovedImageIds (removedImageIds s @ ids) s))"

text \<open>\<^verbatim>\<open>allFiles\<close> (source lines 337 to 340).\<close>

definition allFiles :: "state \<Rightarrow> FileItem list" where
  "allFiles s = map Existing (displayExistingFiles s) @ map New (uploadedFiles s)"

subsection \<open>Events\<close>

text \<open>What can happen to a mounted component. An event is possible only where the rendered
  page offers it:
  \<^item> \<open>Add\<close>: a drop or a file selection, unless the component is disabled;
  \<^item> \<open>RemoveNew\<close>, \<open>RemoveExisting\<close>: the remove button of a listed file, shown when
    \<^verbatim>\<open>allowRemove\<close> holds;
  \<^item> \<open>Undo\<close>, \<open>Confirm\<close>: the buttons of an entry of the recently-removed list;
  \<^item> \<open>ClearAll\<close>: shown with a non-empty file list when \<^verbatim>\<open>allowRemove\<close> holds;
  \<^item> \<open>ManualUpload\<close>: shown with a non-empty file list when \<^verbatim>\<open>autoUpload\<close> is off and a
    local file exists, enabled while some local file is neither uploaded nor in error;
  \<^item> \<open>UploadTick k r\<close>: the \<open>k\<close>-th running upload interval fires, drawing the double
    \<open>r\<close> from \<open>[0, 1)\<close>;
  \<^item> \<open>SweepTick now\<close>: the removal interval fires, if it exists;
  \<^item> \<open>HostSupplies\<close>: the host renders the component with a new \<^verbatim>\<open>existingFiles\<close> array.
  \<open>step\<close> is the handler followed by the effects; \<open>None\<close> says the event cannot happen.\<close>

datatype event =
    Add "File list" "nat \<Rightarrow> string"
  | RemoveNew string
  | RemoveExisting DisplayFile int
  | Undo int
  | Confirm int
  | ClearAll
  | ManualUpload
  | UploadTick nat real
  | SweepTick int
  | HostSupplies "MediaType list"

fun enabled :: "props \<Rightarrow> event \<Rightarrow> state \<Rightarrow> bool" where
  "enabled P (Add fileArray newId) s = (\<not> disabled P)"
| "enabled P (RemoveNew fileId) s = (allowRemove P \<and> fileId \<in> set (map uf_id (uploadedFiles s)))"
| "enabled P (RemoveExisting file now) s = (allowRemove P \<and> file \<in> set (displayExistingFiles s))"
| "enabled P (Undo fileId) s = (fileId \<in> set (map ur_id (undoableRemovals s)))"
| "enabled P (Confirm fileId) s = (fileId \<in> set (map ur_id (undoableRemovals s)))"
| "enabled P ClearAll s = (allowRemove P \<and> allFiles s \<noteq> [])"
| "enabled P ManualUpload s =
     (\<not> autoUpload P \<and> uploadedFiles s \<noteq> [] \<and>
      \<not> list_all (\<lambda>f. uf_uploaded f \<or> truthy (uf_error f)) (uploadedFiles s))"
| "enabled P (UploadTick k r) s =
     (k < length (uploadIntervals s) \<and> toDouble P r = r \<and> 0 \<le> r \<and> r < 1)"
| "enabled P (SweepTick now) s = sweepInterval s"
| "enabled P (HostSupplies host) s = True"

fun handle :: "props \<Rightarrow> event \<Rightarrow> state \<Rightarrow> state" where
  "handle P (Add fileArray newId) s = processFiles P newId fileArray s"
| "handle P (RemoveNew fileId) s = removeNewFile fileId s"
| "handle P (RemoveExisting file now) s = removeExistingFile file now s"
| "handle P (Undo fileId) s = undoRemoval fileId s"
| "handle P (Confirm fileId) s = confirmRemoval fileId s"
| "handle P ClearAll s = clearAll s"
| "handle P ManualUpload s = manualUpload s"
| "handle P (UploadTick k r) s = uploadIntervalTick P k r s"
| "handle P (SweepTick now) s = sweepTick now s"
| "handle P (HostSupplies host) s = s\<lparr>existingFiles := host, existingFilesChanged := True\<rparr>"

definition step :: "props \<Rightarrow> event \<Rightarrow> state \<Rightarrow> state option" where
  "step P e s = (if enabled P e s then Some (commit (handle P e s)) else None)"

text \<open>A run: the events handled one after the other from a given state, and from the
  mounted component.\<close>

fun steps :: "props \<Rightarrow> event list \<Rightarrow> state \<Rightarrow> state option" where
  "steps P [] s = Some s"
| "steps P (e # es) s = (case step P e s of None \<Rightarrow> None | Some s' \<Rightarrow> steps P es s')"

definition run :: "props \<Rightarrow> MediaType list \<Rightarrow> event list \<Rightarrow> state option" where
  "run P host es = steps P es (mount host)"

subsection \<open>Vocabulary of the properties\<close>

text \<open>The calls of one kind in the log.\<close>

fun isFilesChange :: "callback \<Rightarrow> bool" where
  "isFilesChange (FilesChange files) = True"
| "isFilesChange c = False"

fun isUploadComplete :: "callback \<Rightarrow> bool" where
  "isUploadComplete (UploadComplete files) = True"
| "isUploadComplete c = False"

fun isError :: "callback \<Rightarrow> bool" where
  "isError (Error message) = True"
| "isError c = False"

text \<open>The free slots, and the two conditions under which \<^verbatim>\<open>processFiles\<close> reports a
  capacity error.\<close>

definition availableSlots :: "props \<Rightarrow> state \<Rightarrow> int" where
  "availableSlots P s = maxFiles P - int (getTotalFileCount s)"

definition capacityExhausted :: "props \<Rightarrow> state \<Rightarrow> bool" where
  "capacityExhausted P s =
     ((singleFile P \<and> getTotalFileCount s > 0) \<or> availableSlots P s \<le> 0)"

text \<open>The events whose handler assigns \<^verbatim>\<open>uploadedFiles\<close>: an accepted add, the removal of
  a local file, a clear, and a tick of an upload interval.\<close>

fun assignsUploadedFiles :: "props \<Rightarrow> event \<Rightarrow> state \<Rightarrow> bool" where
  "assignsUploadedFiles P (Add fileArray newId) s = (\<not> capacityExhausted P s)"
| "assignsUploadedFiles P (RemoveNew fileId) s = True"
| "assignsUploadedFiles P ClearAll s = True"
| "assignsUploadedFiles P (UploadTick k r) s = True"
| "assignsUploadedFiles P e s = False"

text \<open>A state in which every effect has run: no dependency is marked as changed, and the
  removal interval exists exactly when an entry is pending.\<close>

definition settled :: "state \<Rightarrow> bool" where
  "settled s =
     (\<not> uploadedFilesChanged s \<and> \<not> existingFilesChanged s \<and>
      sweepDeps s = Some (length (undoableRemovals s)) \<and>
      (sweepInterval s \<longleftrightarrow> undoableRemovals s \<noteq> []))"

text \<open>The raw files of the local pending files that carry no validation error.\<close>

definition validatedPayload :: "state \<Rightarrow> File list" where
  "validatedPayload s = map uf_file (filter (\<lambda>f. \<not> truthy (uf_error f)) (uploadedFiles s))"

text \<open>The displayed remote files and the files of the pending-deletion entries are together
  the files of the current host list whose identifier is not confirmed as deleted.\<close>

definition remoteFilesAccounted :: "state \<Rightarrow> bool" where
  "remoteFilesAccounted s =
     (set (displayExistingFiles s) \<union> set (map ur_file (undoableRemovals s)) =
      set (filter (\<lambda>f. mt_id f \<notin> set (removedImageIds s)) (existingFiles s)))"

text \<open>No identifier occurs twice among the displayed remote files and the pending-deletion
  entries, and every entry carries the identifier of its file.\<close>

definition remotePoolsDistinct :: "state \<Rightarrow> bool" where
  "remotePoolsDistinct s =
     (distinct (map mt_id (displayExistingFiles s) @ map ur_id (undoableRemovals s)) \<and>
      (\<forall>r\<in>set (undoableRemovals s). ur_id r = mt_id (ur_file r)))"

text \<open>Kinds of events.\<close>

fun clearsOrResupplies :: "event \<Rightarrow> bool" where
  "clearsOrResupplies ClearAll = True"
| "clearsOrResupplies (HostSupplies host) = True"
| "clearsOrResupplies e = False"

fun isUndo :: "event \<Rightarrow> bool" where
  "isUndo (Undo fileId) = True"
| "isUndo e = False"

fun isAdd :: "event \<Rightarrow> bool" where
  "isAdd (Add fileArray newId) = True"
| "isAdd e = False"

text \<open>The successive records of the file at position \<open>i\<close> while one upload interval is
  followed on its own.\<close>

definition progressTrack ::
  "(real \<Rightarrow> real) \<Rightarrow> string \<Rightarrow> real \<Rightarrow> real list \<Rightarrow> UploadedFile list \<Rightarrow> nat \<Rightarrow>
     UploadedFile list" where
  "progressTrack rnd fileId progress rs prev i =
     map (\<lambda>files. files ! i) (uploadTrace rnd fileId progress rs prev)"

text \<open>The progress that \<^verbatim>\<open>progress += Math.random() * 25\<close> has accumulated over the draws
  \<open>rs\<close>, without the clamp.\<close>

definition accumulated :: "(real \<Rightarrow> real) \<Rightarrow> real \<Rightarrow> real list \<Rightarrow> real" where
  "accumulated rnd progress rs = foldl (\<lambda>progress r. rnd (progress + rnd (r * 25))) progress rs"

text \<open>What the properties of the simulated upload use of rounding to the nearest double: it
  is monotone, it leaves its own results unchanged, and 0 is a double.\<close>

definition roundingLaws :: "(real \<Rightarrow> real) \<Rightarrow> bool" where
  "roundingLaws rnd = (mono rnd \<and> rnd \<circ> rnd = rnd \<and> rnd 0 = 0)"

subsection \<open>Example data\<close>

text \<open>The regular-expression engine on the three sources that the default accept string
  produces: \<^verbatim>\<open>^image/.*$\<close> matches exactly the subjects that start with
  \<^verbatim>\<open>image/\<close>, and so on.\<close>

definition mimeWildcardTest :: "string \<Rightarrow> string \<Rightarrow> bool" where
  "mimeWildcardTest src subject =
     ((src = ''^image/.*$'' \<and> startsWith subject ''image/'') \<or>
      (src = ''^video/.*$'' \<and> startsWith subject ''video/'') \<or>
      (src = ''^audio/.*$'' \<and> startsWith subject ''audio/''))"

text \<open>The platform's \<^verbatim>\<open>trim\<close> and \<^verbatim>\<open>toLowerCase\<close> on ASCII text, which is all the
  examples contain.\<close>

definition asciiWhitespace :: "char \<Rightarrow> bool" where
  "asciiWhitespace c = (c \<in> set [CHR '' '', CHR 0x09, CHR 0x0A, CHR 0x0B, CHR 0x0C, CHR 0x0D])"

definition asciiTrim :: "string \<Rightarrow> string" where
  "asciiTrim s = rev (dropWhile asciiWhitespace (rev (dropWhile asciiWhitespace s)))"

definition asciiToLowerCase :: "string \<Rightarrow> string" where
  "asciiToLowerCase s =
     map (\<lambda>c. if 65 \<le> (of_char c :: nat) \<and> (of_char c :: nat) \<le> 90
               then char_of ((of_char c :: nat) + 32) else c) s"

text \<open>The platform's rounding on the numbers of the examples: the draws \<open>0\<close>, \<open>1/4\<close> and
  \<open>3/4\<close>, their products with 25 and the sums of these are doubles (whole multiples of
  \<open>1/4\<close> below 128), and rounding leaves a double as it is.\<close>

definition exactDouble :: "real \<Rightarrow> real" where
  "exactDouble x = x"

text \<open>The default values of the props (source lines 74 to 95), with a reader that yields no
  preview.\<close>

definition defaultProps :: props where
  "defaultProps =
     \<lparr>accept = None, fileTypes = [all], maxFiles = 10, maxSize = 10, disabled = False,
      allowRemove = True, singleFile = False, autoUpload = True,
      regexTest = mimeWildcardTest, readAsDataURL = (\<lambda>file. None),
      trim = asciiTrim, toLowerCase = asciiToLowerCase, toDouble = exactDouble\<rparr>"

definition photo :: File where
  "photo = \<lparr>f_name = ''photo.png'', f_size = 2048, f_type = ''image/png''\<rparr>"

definition clip :: File where
  "clip = \<lparr>f_name = ''clip.mp4'', f_size = 4096, f_type = ''video/mp4''\<rparr>"

definition song :: File where
  "song = \<lparr>f_name = ''song.mp3'', f_size = 1024, f_type = ''audio/mpeg''\<rparr>"

text \<open>A file of 50 MB.\<close>

definition movie :: File where
  "movie = \<lparr>f_name = ''movie.mp4'', f_size = 52428800, f_type = ''video/mp4''\<rparr>"

definition exampleId :: "nat \<Rightarrow> string" where
  "exampleId i = [''k3j9x0q2a'', ''p8w1m5z7c'', ''t4u6v2b9e''] ! (i mod 3)"

definition remoteA :: MediaType where
  "remoteA = \<lparr>mt_id = 7, mt_file_name = ''a.jpg'', mt_size = Some 300,
     mt_mime_type = Some ''image/jpeg'', mt_url = Some ''/media/a.jpg''\<rparr>"

definition remoteB :: MediaType where
  "remoteB = \<lparr>mt_id = 8, mt_file_name = ''b.pdf'', mt_size = Some 900,
     mt_mime_type = Some ''application/pdf'', mt_url = Some ''/media/b.pdf''\<rparr>"

text \<open>Two runs: a photo and an oversized movie are added and the photo's upload has ticked five
  times by 18.75; the remote file \<open>remoteA\<close> has been removed at time 1000.\<close>

definition oneUploadRunning :: "event list" where
  "oneUploadRunning =
     [Add [photo, movie] exampleId, UploadTick 0 (3/4), UploadTick 0 (3/4), UploadTick 0 (3/4),
      UploadTick 0 (3/4), UploadTick 0 (3/4)]"

definition onePending :: "event list" where
  "onePending = [RemoveExisting remoteA 1000]"

text \<open>A run over two remote files: \<open>remoteA\<close> is removed and restored, both are removed,
  the removal of \<open>remoteB\<close> is confirmed by hand, and that of \<open>remoteA\<close> is still pending
  at the sweep.\<close>

definition removeUndoRemoveConfirm :: "event list" where
  "removeUndoRemoveConfirm =
     [RemoveExisting remoteA 1000, Undo 7, RemoveExisting remoteB 2000, RemoveExisting remoteA 3000,
      Confirm 8, SweepTick 12500]"

text \<open>The record \<^verbatim>\<open>processFiles\<close> builds for the photo.\<close>

definition freshPhoto :: UploadedFile where
  "freshPhoto = newUploadedFile defaultProps exampleId 0 photo"

text \<open>A run over two remote files that adds a photo and removes \<open>remoteA\<close>.\<close>

definition localAndPending :: "event list" where
  "localAndPending = [Add [photo] exampleId, RemoveExisting remoteA 1000]"


section \<open>Properties\<close>

subsection \<open>Basic facts\<close>

lemmas setters = callback_def setUploadedFiles_def setDisplayExistingFiles_def
  setRemovedImageIds_def setUndoableRemovals_def

lemma startUploads_eq:
  "startUploads p files s =
     s\<lparr>uploadIntervals := uploadIntervals s @ map (\<lambda>f. (uf_id f, 0)) (filter p files)\<rparr>"
  unfolding startUploads_def
  by (induction files arbitrary: s) (simp_all add: simulateUpload_def)

lemma length_buildUploadedFiles [simp]:
  "length (buildUploadedFiles P newId i files) = length files"
  by (induction files arbitrary: i) simp_all

lemma files_buildUploadedFiles [simp]:
  "map uf_file (buildUploadedFiles P newId i files) = files"
  by (induction files arbitrary: i) (simp_all add: newUploadedFile_def)

lemma valid_buildUploadedFiles:
  "map uf_file (filter (\<lambda>f. \<not> truthy (uf_error f)) (buildUploadedFiles P newId i files)) =
   filter (\<lambda>file. \<not> truthy (validateFile P file)) files"
  by (induction files arbitrary: i) (simp_all add: newUploadedFile_def truthy_def)

lemma mount_eq:
  "mount host =
     \<lparr>uploadedFiles = [], displayExistingFiles = host, removedImageIds = [],
      undoableRemovals = [], existingFiles = host, uploadIntervals = [],
      sweepInterval = False, sweepDeps = Some 0, uploadedFilesChanged = False,
      existingFilesChanged = False, calls = []\<rparr>"
  by (cases host)
     (simp_all add: mount_def initial_def commit_def syncExistingFiles_def uploadCompleteEffect_def
        removalTimerEffect_def allNewUploaded_def setters Let_def)

lemma sweep_eq:
  "sweep now rs =
     (filter (\<lambda>r. \<not> ur_removedAt r + 10000 - now \<le> 0) rs,
      map ur_id (filter (\<lambda>r. ur_removedAt r + 10000 - now \<le> 0) rs))"
  by (induction rs) (simp_all add: Let_def)

lemma sweepTick_eq:
  "sweepTick now s =
     s\<lparr>removedImageIds := removedImageIds s @
          map ur_id (filter (\<lambda>r. ur_removedAt r + 10000 - now \<le> 0) (undoableRemovals s)),
       undoableRemovals := filter (\<lambda>r. \<not> ur_removedAt r + 10000 - now \<le> 0) (undoableRemovals s)\<rparr>"
  by (simp add: sweepTick_def sweep_eq setters)

lemma uploadIntervalTick_eq:
  "uploadIntervalTick P k r s =
     s\<lparr>uploadIntervals :=
          (if fst (snd (uploadTick (toDouble P) (fst (uploadIntervals s ! k))
                     (snd (uploadIntervals s ! k)) r (uploadedFiles s)))
           then take k (uploadIntervals s) @ drop (Suc k) (uploadIntervals s)
           else (uploadIntervals s)
                  [k := (fst (uploadIntervals s ! k),
                         fst (uploadTick (toDouble P) (fst (uploadIntervals s ! k))
                                (snd (uploadIntervals s ! k)) r (uploadedFiles s)))]),
       uploadedFiles :=
         snd (snd (uploadTick (toDouble P) (fst (uploadIntervals s ! k))
                     (snd (uploadIntervals s ! k)) r (uploadedFiles s))),
       uploadedFilesChanged := True\<rparr>"
  by (simp add: uploadIntervalTick_def setters split: prod.splits)

text \<open>What the effects leave of a state.\<close>

lemma commit_fields [simp]:
  "uploadedFiles (commit s) = uploadedFiles s"
  "removedImageIds (commit s) = removedImageIds s"
  "undoableRemovals (commit s) = undoableRemovals s"
  "existingFiles (commit s) = existingFiles s"
  "uploadIntervals (commit s) = uploadIntervals s"
  "uploadedFilesChanged (commit s) = False"
  "existingFilesChanged (commit s) = False"
  "sweepDeps (commit s) = Some (length (undoableRemovals s))"
  by (simp_all add: commit_def syncExistingFiles_def uploadCompleteEffect_def
        removalTimerEffect_def setters Let_def)

lemma commit_display:
  "\<not> existingFilesChanged s \<Longrightarrow> displayExistingFiles (commit s) = displayExistingFiles s"
  by (simp add: commit_def uploadCompleteEffect_def removalTimerEffect_def setters Let_def)

lemma commit_sweepInterval:
  "sweepInterval (commit s) =
     (if sweepDeps s \<noteq> Some (length (undoableRemovals s)) then undoableRemovals s \<noteq> []
      else sweepInterval s)"
  by (simp add: commit_def syncExistingFiles_def uploadCompleteEffect_def
        removalTimerEffect_def setters Let_def)

lemma commit_calls:
  "calls (commit s) = calls s @
     (if uploadedFilesChanged s \<and> allNewUploaded s \<and> list_ex uf_uploaded (uploadedFiles s)
      then [UploadComplete (filter uf_uploaded (uploadedFiles s))] else [])"
  by (auto simp: commit_def syncExistingFiles_def uploadCompleteEffect_def
        removalTimerEffect_def setters Let_def allNewUploaded_def)

lemma allNewUploaded_commit [simp]: "allNewUploaded (commit s) = allNewUploaded s"
  by (simp add: allNewUploaded_def)

subsection \<open>Adding files\<close>

lemma processFiles_reject:
  "capacityExhausted P s \<Longrightarrow>
   \<exists>message. processFiles P newId fileArray s = callback (Error message) s"
  by (auto simp: capacityExhausted_def availableSlots_def processFiles_def Let_def)

text \<open>An accepted call in closed form.\<close>

lemma processFiles_accept:
  assumes "\<not> capacityExhausted P s"
  shows "processFiles P newId fileArray s =
    (let new = buildUploadedFiles P newId 0 (take (nat (availableSlots P s)) fileArray);
         valid = filter (\<lambda>f. \<not> truthy (uf_error f)) new
     in s\<lparr>uploadedFiles := uploadedFiles s @ new, uploadedFilesChanged := True,
         uploadIntervals :=
           uploadIntervals s @ (if autoUpload P then map (\<lambda>f. (uf_id f, 0)) valid else []),
         calls := calls s @
           (if valid = [] then []
            else [FilesChange (map uf_file (uploadedFiles s) @ map uf_file valid)])\<rparr>)"
proof -
  from assms have c: "\<not> (singleFile P \<and> 0 < getTotalFileCount s)"
    and a: "\<not> maxFiles P - int (getTotalFileCount s) \<le> 0"
    by (simp_all add: capacityExhausted_def availableSlots_def)
  have d: "singleFile P \<Longrightarrow> displayExistingFiles s = [] \<and> uploadedFiles s = []"
    using c by (simp add: getTotalFileCount_def)
  show ?thesis
    using c a d
    by (simp add: processFiles_def Let_def setters startUploads_eq availableSlots_def)
qed

lemma processFiles_cases:
  "processFiles P newId fileArray s =
     (if capacityExhausted P s
      then callback (Error (if singleFile P \<and> getTotalFileCount s > 0
             then ''Only one file allowed. Remove existing file first.''
             else ''Maximum '' @ show_int (maxFiles P) @ '' files allowed'')) s
      else (let new = buildUploadedFiles P newId 0 (take (nat (availableSlots P s)) fileArray);
         valid = filter (\<lambda>f. \<not> truthy (uf_error f)) new
     in s\<lparr>uploadedFiles := uploadedFiles s @ new, uploadedFilesChanged := True,
         uploadIntervals :=
           uploadIntervals s @ (if autoUpload P then map (\<lambda>f. (uf_id f, 0)) valid else []),
         calls := calls s @
           (if valid = [] then []
            else [FilesChange (map uf_file (uploadedFiles s) @ map uf_file valid)])\<rparr>))"
proof (cases "capacityExhausted P s")
  case True
  then show ?thesis
    by (auto simp: capacityExhausted_def availableSlots_def processFiles_def Let_def)
next
  case False
  then show ?thesis by (simp add: processFiles_accept)
qed

text \<open>What a handler leaves of a state.\<close>

lemmas handlers = processFiles_cases removeNewFile_def removeExistingFile_def undoRemoval_def
  confirmRemoval_def clearAll_def manualUpload_def uploadIntervalTick_eq sweepTick_eq
  startUploads_eq setters Let_def

lemma handle_timer [simp]:
  "sweepDeps (handle P e s) = sweepDeps s"
  "sweepInterval (handle P e s) = sweepInterval s"
  by (cases e; simp add: handlers split: option.splits)+

lemma handle_existingFilesChanged:
  "existingFilesChanged (handle P e s) =
     (existingFilesChanged s \<or> (case e of HostSupplies host \<Rightarrow> True | _ \<Rightarrow> False))"
  by (cases e; simp add: handlers split: option.splits)

lemma handle_uploadedFilesChanged:
  "uploadedFilesChanged (handle P e s) = (uploadedFilesChanged s \<or> assignsUploadedFiles P e s)"
  by (cases e; simp add: handlers split: option.splits)

lemma handle_uploadComplete:
  "filter isUploadComplete (calls (handle P e s)) = filter isUploadComplete (calls s)"
  by (cases e; simp add: handlers split: option.splits)

subsection \<open>Settled states\<close>

lemma settled_mount: "settled (mount host)"
  by (simp add: settled_def mount_eq)

lemma settled_step:
  assumes "settled s" and "step P e s = Some s'"
  shows "settled s'"
proof -
  from assms(2) have s': "s' = commit (handle P e s)"
    by (simp add: step_def split: if_splits)
  have "length (undoableRemovals (handle P e s)) = length (undoableRemovals s) \<Longrightarrow>
        (undoableRemovals (handle P e s) \<noteq> []) = (undoableRemovals s \<noteq> [])"
    by (metis length_0_conv)
  then show ?thesis
    using assms(1) unfolding s' settled_def
    by (auto simp: commit_sweepInterval)
qed

lemma settled_steps: "settled s \<Longrightarrow> steps P es s = Some s' \<Longrightarrow> settled s'"
  by (induction es arbitrary: s) (auto split: option.splits dest: settled_step)

lemma settled_run: "run P host es = Some s \<Longrightarrow> settled s"
  unfolding run_def by (rule settled_steps [OF settled_mount])

lemma Some_the: "x \<noteq> None \<Longrightarrow> x = Some (the x)"
  by simp

subsection \<open>Evaluating the examples\<close>

lemma defaultProps_fields:
  "maxFiles defaultProps = 10" "singleFile defaultProps = False" "autoUpload defaultProps = True"
  "disabled defaultProps = False" "allowRemove defaultProps = True"
  "toDouble defaultProps x = x"
  by (simp_all add: defaultProps_def exactDouble_def)

lemma exampleId_values:
  "exampleId 0 = ''k3j9x0q2a''" "exampleId (Suc 0) = ''p8w1m5z7c''"
  by (simp_all add: exampleId_def)

lemma show_int_10: "show_int 10 = ''10''"
  by code_simp

lemma validate_examples:
  "validateFile defaultProps photo = None"
  "validateFile defaultProps clip = None"
  "validateFile defaultProps song = None"
  by code_simp+

lemma validate_movie:
  "validateFile defaultProps movie = Some ''File size must be less than 10MB''"
  by (simp add: validateFile_def movie_def defaultProps_def show_int_10)

lemma preview_default: "generatePreview defaultProps file = None"
  by (simp add: generatePreview_def defaultProps_def)

lemmas eval = run_def mount_eq step_def handlers commit_def syncExistingFiles_def
  uploadCompleteEffect_def removalTimerEffect_def allNewUploaded_def capacityExhausted_def
  availableSlots_def getTotalFileCount_def newUploadedFile_def truthy_def uploadTick_def
  allFiles_def defaultProps_fields exampleId_values validate_examples validate_movie preview_default

subsection \<open>The claims about adding files\<close>

text \<open>
  \<^bold>\<open>Claim C7.\<close> For a call of \<^verbatim>\<open>processFiles\<close> with a non-empty batch: when single-file
  mode is on and a file occupies a slot, or when no slot is free, the call only reports an
  error to \<^verbatim>\<open>onError\<close> and leaves the rest of the state as it was. Otherwise the first
  \<open>min (length fileArray) availableSlots\<close> files of the batch are appended to the local pending
  files, the other pools are untouched, no error is reported for the dropped tail, and the total
  file count is at most \<^verbatim>\<open>maxFiles\<close>.
\<close>

theorem processFiles_capacity:
  "fileArray \<noteq> [] \<Longrightarrow>
   (capacityExhausted P s \<longrightarrow>
      (\<exists>message. processFiles P newId fileArray s = callback (Error message) s)) \<and>
   (\<not> capacityExhausted P s \<longrightarrow>
      map uf_file (uploadedFiles (processFiles P newId fileArray s)) =
        map uf_file (uploadedFiles s) @
        take (min (length fileArray) (nat (availableSlots P s))) fileArray \<and>
      displayExistingFiles (processFiles P newId fileArray s) = displayExistingFiles s \<and>
      undoableRemovals (processFiles P newId fileArray s) = undoableRemovals s \<and>
      removedImageIds (processFiles P newId fileArray s) = removedImageIds s \<and>
      filter isError (calls (processFiles P newId fileArray s)) = filter isError (calls s) \<and>
      int (getTotalFileCount (processFiles P newId fileArray s)) \<le> maxFiles P)"
proof (intro conjI impI)
  assume "capacityExhausted P s"
  then show "\<exists>message. processFiles P newId fileArray s = callback (Error message) s"
    by (rule processFiles_reject)
next
  assume a: "\<not> capacityExhausted P s"
  note eq = processFiles_accept [OF a, of newId fileArray]
  have t: "take (min (length fileArray) (nat (availableSlots P s))) fileArray =
           take (nat (availableSlots P s)) fileArray"
    by (simp add: min_def)
  show "map uf_file (uploadedFiles (processFiles P newId fileArray s)) =
        map uf_file (uploadedFiles s) @
        take (min (length fileArray) (nat (availableSlots P s))) fileArray"
    unfolding t by (simp add: eq Let_def)
  show "displayExistingFiles (processFiles P newId fileArray s) = displayExistingFiles s"
    by (simp add: eq Let_def)
  show "undoableRemovals (processFiles P newId fileArray s) = undoableRemovals s"
    by (simp add: eq Let_def)
  show "removedImageIds (processFiles P newId fileArray s) = removedImageIds s"
    by (simp add: eq Let_def)
  show "filter isError (calls (processFiles P newId fileArray s)) = filter isError (calls s)"
    by (simp add: eq Let_def)
  from a have "availableSlots P s > 0"
    by (simp add: capacityExhausted_def)
  then show "int (getTotalFileCount (processFiles P newId fileArray s)) \<le> maxFiles P"
    by (simp add: eq Let_def getTotalFileCount_def availableSlots_def min_def) arith
qed

theorem processFiles_capacity_witness:
  "[photo] \<noteq> [] \<and>
   capacityExhausted (defaultProps\<lparr>maxFiles := 0\<rparr>) (mount []) \<and>
   (\<exists>message. processFiles (defaultProps\<lparr>maxFiles := 0\<rparr>) exampleId [photo] (mount []) =
      callback (Error message) (mount [])) \<and>
   \<not> capacityExhausted defaultProps (mount []) \<and>
   map uf_file (uploadedFiles (processFiles defaultProps exampleId [photo] (mount []))) = [photo] \<and>
   int (getTotalFileCount (processFiles defaultProps exampleId [photo] (mount []))) \<le> 10"
proof -
  have n: "[photo] \<noteq> []" by simp
  have full: "capacityExhausted (defaultProps\<lparr>maxFiles := 0\<rparr>) (mount [])"
    by (simp add: capacityExhausted_def availableSlots_def getTotalFileCount_def mount_eq
          defaultProps_def)
  have free: "\<not> capacityExhausted defaultProps (mount [])"
    by (simp add: capacityExhausted_def availableSlots_def getTotalFileCount_def mount_eq
          defaultProps_def)
  have m: "maxFiles defaultProps = 10" "uploadedFiles (mount []) = []"
    by (simp_all add: defaultProps_def mount_eq)
  show ?thesis
    using processFiles_capacity [OF n, of "defaultProps\<lparr>maxFiles := 0\<rparr>" "mount []" exampleId]
      processFiles_capacity [OF n, of defaultProps "mount []" exampleId] full free
    by (simp add: m availableSlots_def getTotalFileCount_def mount_eq)
qed

lemma show_int_2: "show_int 2 = ''2''"
  by code_simp

text \<open>
  \<^bold>\<open>Claim C3\<close> says that adding three files with \<^verbatim>\<open>maxFiles = 2\<close> and empty pools
  accepts two and calls \<^verbatim>\<open>onError\<close> once. The code accepts two and calls \<^verbatim>\<open>onError\<close>
  not at all: the error is reported only when no slot is free before the call.
\<close>

theorem add_three_into_two_slots_counterexample:
  "map_option (\<lambda>s. (map uf_file (uploadedFiles s), filter isError (calls s)))
     (run (defaultProps\<lparr>maxFiles := 2\<rparr>) [] [Add [photo, clip, song] exampleId]) =
   Some ([photo, clip], [])"
  by code_simp

text \<open>
  \<^bold>\<open>Claim C3, amended.\<close> With \<^verbatim>\<open>maxFiles = 2\<close> and empty pools, adding three files
  stores the first two as local pending files and reports no error; the third file is dropped
  silently. Outside single-file mode, any further call then reports the error
  \<^verbatim>\<open>Maximum 2 files allowed\<close> and changes nothing else.
\<close>

theorem add_three_into_two_slots:
  assumes "maxFiles P = 2" and "uploadedFiles s = []" and "displayExistingFiles s = []"
  shows "map uf_file (uploadedFiles (processFiles P newId [f1, f2, f3] s)) = [f1, f2] \<and>
         length (uploadedFiles (processFiles P newId [f1, f2, f3] s)) = 2 \<and>
         filter isError (calls (processFiles P newId [f1, f2, f3] s)) = filter isError (calls s) \<and>
         (\<not> singleFile P \<longrightarrow>
            processFiles P newId' fileArray (processFiles P newId [f1, f2, f3] s) =
              callback (Error ''Maximum 2 files allowed'') (processFiles P newId [f1, f2, f3] s))"
proof -
  let ?s' = "processFiles P newId [f1, f2, f3] s"
  have c: "getTotalFileCount s = 0" using assms by (simp add: getTotalFileCount_def)
  then have a: "\<not> capacityExhausted P s" and sl: "availableSlots P s = 2"
    using assms by (simp_all add: capacityExhausted_def availableSlots_def)
  have two: "nat 2 = Suc (Suc 0)" by simp
  note eq = processFiles_accept [OF a, of newId "[f1, f2, f3]", unfolded sl]
  have u: "map uf_file (uploadedFiles ?s') = [f1, f2]"
    using assms by (simp add: eq Let_def two newUploadedFile_def)
  then have l: "length (uploadedFiles ?s') = 2"
    by (metis length_map length_Cons list.size(3) numeral_2_eq_2)
  have d: "displayExistingFiles ?s' = []"
    using assms by (simp add: eq Let_def)
  have e: "filter isError (calls ?s') = filter isError (calls s)"
    by (simp add: eq Let_def)
  have full: "\<not> singleFile P \<Longrightarrow> processFiles P newId' fileArray ?s' =
              callback (Error ''Maximum 2 files allowed'') ?s'"
    using l d assms(1)
    by (simp add: processFiles_def [of P newId' fileArray] getTotalFileCount_def show_int_2)
  show ?thesis using u l e full by blast
qed

theorem add_three_into_two_slots_witness:
  "maxFiles (defaultProps\<lparr>maxFiles := 2\<rparr>) = 2 \<and> uploadedFiles (mount []) = [] \<and>
   displayExistingFiles (mount []) = [] \<and> \<not> singleFile (defaultProps\<lparr>maxFiles := 2\<rparr>) \<and>
   map uf_file (uploadedFiles
     (processFiles (defaultProps\<lparr>maxFiles := 2\<rparr>) exampleId [photo, clip, song] (mount []))) =
     [photo, clip] \<and>
   processFiles (defaultProps\<lparr>maxFiles := 2\<rparr>) exampleId [photo]
     (processFiles (defaultProps\<lparr>maxFiles := 2\<rparr>) exampleId [photo, clip, song] (mount [])) =
   callback (Error ''Maximum 2 files allowed'')
     (processFiles (defaultProps\<lparr>maxFiles := 2\<rparr>) exampleId [photo, clip, song] (mount []))"
proof -
  have h: "maxFiles (defaultProps\<lparr>maxFiles := 2\<rparr>) = 2" "uploadedFiles (mount []) = []"
    "displayExistingFiles (mount []) = []"
    by (simp_all add: mount_eq)
  have ns: "\<not> singleFile (defaultProps\<lparr>maxFiles := 2\<rparr>)"
    by (simp add: defaultProps_def)
  show ?thesis
    using add_three_into_two_slots [OF h, of exampleId photo clip song exampleId "[photo]"] h ns
    by simp
qed

text \<open>
  \<^bold>\<open>Claim C2\<close> says that \<^verbatim>\<open>onFilesChange\<close> is called after every add, remove and clear
  with the raw files of the validated local files, and that adding a single oversized file calls
  it with a payload that excludes the file. Adding a single file of 50 MB under the default
  \<^verbatim>\<open>maxSize = 10\<close> stores the file with its error and makes no call at all.
\<close>

theorem oversized_add_counterexample:
  "map_option (\<lambda>s. (map uf_error (uploadedFiles s), filter isFilesChange (calls s)))
     (run defaultProps [] [Add [movie] exampleId]) =
   Some ([Some ''File size must be less than 10MB''], [])"
  by (simp add: eval)

text \<open>
  \<^bold>\<open>Claim C2, amended.\<close> A rejected add makes no call of \<^verbatim>\<open>onFilesChange\<close>. An accepted add
  makes exactly one call when a file of the accepted batch passes validation and none otherwise;
  its payload is the raw files of all the local files that were there before, with or without a
  validation error, followed by exactly the accepted files that passed validation, so the
  accepted files that carry a validation error are left out. A removal of a local file makes
  exactly one call, with the raw files of all the local files that remain, with or without a
  validation error. A clear makes exactly one call, with the empty list. When none of the local
  files that were there before (that remain) carries a validation error, the payload of an add
  (of a removal) is the list of raw files of the validated local files after the operation.
\<close>

theorem filesChange_payload:
  "(capacityExhausted P s \<longrightarrow>
      filter isFilesChange (calls (processFiles P newId fileArray s)) =
        filter isFilesChange (calls s)) \<and>
   (\<not> capacityExhausted P s \<longrightarrow>
      filter isFilesChange (calls (processFiles P newId fileArray s)) =
        filter isFilesChange (calls s) @
        (if \<exists>file\<in>set (take (nat (availableSlots P s)) fileArray).
              \<not> truthy (validateFile P file)
         then [FilesChange (map uf_file (uploadedFiles s) @
                 filter (\<lambda>file. \<not> truthy (validateFile P file))
                   (take (nat (availableSlots P s)) fileArray))]
         else []) \<and>
      ((\<forall>f\<in>set (uploadedFiles s). \<not> truthy (uf_error f)) \<longrightarrow>
         map uf_file (uploadedFiles s) @
           filter (\<lambda>file. \<not> truthy (validateFile P file))
             (take (nat (availableSlots P s)) fileArray) =
         validatedPayload (processFiles P newId fileArray s))) \<and>
   uploadedFiles (removeNewFile fileId s) = filter (\<lambda>f. uf_id f \<noteq> fileId) (uploadedFiles s) \<and>
   calls (removeNewFile fileId s) =
     calls s @ [FilesChange (map uf_file (filter (\<lambda>f. uf_id f \<noteq> fileId) (uploadedFiles s)))] \<and>
   ((\<forall>f\<in>set (uploadedFiles s). uf_id f \<noteq> fileId \<longrightarrow> \<not> truthy (uf_error f)) \<longrightarrow>
      map uf_file (filter (\<lambda>f. uf_id f \<noteq> fileId) (uploadedFiles s)) =
      validatedPayload (removeNewFile fileId s)) \<and>
   calls (clearAll s) = calls s @ [FilesChange []] \<and>
   validatedPayload (clearAll s) = []"
proof -
  let ?batch = "take (nat (availableSlots P s)) fileArray"
  let ?new = "buildUploadedFiles P newId 0 ?batch"
  let ?valid = "filter (\<lambda>file. \<not> truthy (validateFile P file)) ?batch"
  let ?earlier = "map uf_file (uploadedFiles s)"
  let ?rest = "filter (\<lambda>f. uf_id f \<noteq> fileId) (uploadedFiles s)"
  have rej: "filter isFilesChange (calls (processFiles P newId fileArray s)) =
        filter isFilesChange (calls s)" if "capacityExhausted P s"
    using that by (simp add: processFiles_cases setters)
  have v: "map uf_file (filter (\<lambda>f. \<not> truthy (uf_error f)) ?new) = ?valid"
    by (rule valid_buildUploadedFiles)
  have e: "(filter (\<lambda>f. \<not> truthy (uf_error f)) ?new = []) =
           (\<not> (\<exists>file\<in>set ?batch. \<not> truthy (validateFile P file)))"
    using v by (metis (mono_tags, lifting) filter_empty_conv map_is_Nil_conv)
  have c: "filter isFilesChange (calls (processFiles P newId fileArray s)) =
        filter isFilesChange (calls s) @
        (if \<exists>file\<in>set ?batch. \<not> truthy (validateFile P file)
         then [FilesChange (?earlier @ ?valid)] else [])" if "\<not> capacityExhausted P s"
    using that e v by (simp add: processFiles_accept Let_def)
  have n: "?earlier @ ?valid = validatedPayload (processFiles P newId fileArray s)"
    if a: "\<not> capacityExhausted P s" and "\<forall>f\<in>set (uploadedFiles s). \<not> truthy (uf_error f)"
  proof -
    have "validatedPayload (processFiles P newId fileArray s) = validatedPayload s @ ?valid"
      using a v by (simp add: processFiles_accept Let_def validatedPayload_def)
    then show ?thesis using that(2) by (simp add: validatedPayload_def)
  qed
  have u: "uploadedFiles (removeNewFile fileId s) = ?rest"
    by (simp add: removeNewFile_def setters Let_def)
  have r: "calls (removeNewFile fileId s) = calls s @ [FilesChange (map uf_file ?rest)]"
    by (simp add: removeNewFile_def setters Let_def)
  have m: "map uf_file ?rest = validatedPayload (removeNewFile fileId s)"
    if "\<forall>f\<in>set (uploadedFiles s). uf_id f \<noteq> fileId \<longrightarrow> \<not> truthy (uf_error f)"
  proof -
    from that
    have "filter (\<lambda>f. uf_id f \<noteq> fileId \<and> \<not> truthy (uf_error f)) (uploadedFiles s) = ?rest"
      by (intro filter_cong) auto
    then show ?thesis unfolding validatedPayload_def u by simp
  qed
  have c1: "calls (clearAll s) = calls s @ [FilesChange []]"
    by (simp add: clearAll_def setters)
  have c2: "validatedPayload (clearAll s) = []"
    by (simp add: clearAll_def validatedPayload_def setters)
  show ?thesis using rej c n u r m c1 c2 by blast
qed

theorem filesChange_payload_witness:
  "\<not> capacityExhausted defaultProps (processFiles defaultProps exampleId [photo] (mount [])) \<and>
   map uf_error (uploadedFiles (processFiles defaultProps exampleId [photo] (mount []))) = [None] \<and>
   filter isFilesChange (calls
     (processFiles defaultProps exampleId [movie, clip]
        (processFiles defaultProps exampleId [photo] (mount [])))) =
     [FilesChange [photo], FilesChange [photo, clip]] \<and>
   map (\<lambda>f. (uf_id f, uf_error f))
     (uploadedFiles (processFiles defaultProps exampleId [photo, movie] (mount []))) =
     [(''k3j9x0q2a'', None), (''p8w1m5z7c'', Some ''File size must be less than 10MB'')] \<and>
   calls (removeNewFile ''p8w1m5z7c''
     (processFiles defaultProps exampleId [photo, movie] (mount []))) =
     [FilesChange [photo], FilesChange [photo]] \<and>
   capacityExhausted (defaultProps\<lparr>maxFiles := 0\<rparr>) (mount []) \<and>
   filter isFilesChange
     (calls (processFiles (defaultProps\<lparr>maxFiles := 0\<rparr>) exampleId [photo] (mount []))) = []"
proof -
  let ?s1 = "processFiles defaultProps exampleId [photo] (mount [])"
  let ?s2 = "processFiles defaultProps exampleId [photo, movie] (mount [])"
  let ?batch = "take (nat (availableSlots defaultProps ?s1)) [movie, clip]"
  have c1: "\<not> capacityExhausted defaultProps ?s1"
    and u1: "map uf_error (uploadedFiles ?s1) = [None]"
    and u2: "map (\<lambda>f. (uf_id f, uf_error f)) (uploadedFiles ?s2) =
       [(''k3j9x0q2a'', None), (''p8w1m5z7c'', Some ''File size must be less than 10MB'')]"
    by (simp_all add: eval)
  have h1: "\<forall>f\<in>set (uploadedFiles ?s1). \<not> truthy (uf_error f)"
    by (simp add: eval)
  have h2: "\<forall>f\<in>set (uploadedFiles ?s2). uf_id f \<noteq> ''p8w1m5z7c'' \<longrightarrow> \<not> truthy (uf_error f)"
    by (simp add: eval)
  have e1: "filter isFilesChange (calls ?s1) = [FilesChange [photo]]"
    "\<exists>file\<in>set ?batch. \<not> truthy (validateFile defaultProps file)"
    "validatedPayload (processFiles defaultProps exampleId [movie, clip] ?s1) = [photo, clip]"
    by (simp_all add: eval validatedPayload_def)
  have e2: "calls ?s2 = [FilesChange [photo]]"
    "validatedPayload (removeNewFile ''p8w1m5z7c'' ?s2) = [photo]"
    by (simp_all add: eval validatedPayload_def)
  have c0: "capacityExhausted (defaultProps\<lparr>maxFiles := 0\<rparr>) (mount [])"
    by (simp add: capacityExhausted_def availableSlots_def getTotalFileCount_def mount_eq)
  have e0: "filter isFilesChange (calls (mount [])) = []"
    by (simp add: mount_eq)
  note t1 = filesChange_payload [of defaultProps ?s1 exampleId "[movie, clip]" "''p8w1m5z7c''"]
  note t2 = filesChange_payload [of defaultProps ?s2 exampleId "[]" "''p8w1m5z7c''"]
  note t0 = filesChange_payload [of "defaultProps\<lparr>maxFiles := 0\<rparr>" "mount []" exampleId "[photo]"
      "''p8w1m5z7c''"]
  from t1 c1 have
    "filter isFilesChange (calls (processFiles defaultProps exampleId [movie, clip] ?s1)) =
       filter isFilesChange (calls ?s1) @
       (if \<exists>file\<in>set ?batch. \<not> truthy (validateFile defaultProps file)
        then [FilesChange (map uf_file (uploadedFiles ?s1) @
                filter (\<lambda>file. \<not> truthy (validateFile defaultProps file)) ?batch)]
        else [])"
    "(\<forall>f\<in>set (uploadedFiles ?s1). \<not> truthy (uf_error f)) \<longrightarrow>
       map uf_file (uploadedFiles ?s1) @
         filter (\<lambda>file. \<not> truthy (validateFile defaultProps file)) ?batch =
       validatedPayload (processFiles defaultProps exampleId [movie, clip] ?s1)"
    by blast+
  with h1 e1 have a: "filter isFilesChange
       (calls (processFiles defaultProps exampleId [movie, clip] ?s1)) =
       [FilesChange [photo], FilesChange [photo, clip]]"
    by simp
  from t2 have
    "calls (removeNewFile ''p8w1m5z7c'' ?s2) =
       calls ?s2 @ [FilesChange (map uf_file
         (filter (\<lambda>f. uf_id f \<noteq> ''p8w1m5z7c'') (uploadedFiles ?s2)))]"
    "(\<forall>f\<in>set (uploadedFiles ?s2). uf_id f \<noteq> ''p8w1m5z7c'' \<longrightarrow> \<not> truthy (uf_error f)) \<longrightarrow>
       map uf_file (filter (\<lambda>f. uf_id f \<noteq> ''p8w1m5z7c'') (uploadedFiles ?s2)) =
       validatedPayload (removeNewFile ''p8w1m5z7c'' ?s2)"
    by blast+
  with h2 e2 have b: "calls (removeNewFile ''p8w1m5z7c'' ?s2) =
       [FilesChange [photo], FilesChange [photo]]"
    by simp
  from t0 c0 e0 have z: "filter isFilesChange
     (calls (processFiles (defaultProps\<lparr>maxFiles := 0\<rparr>) exampleId [photo] (mount []))) = []"
    by simp
  show ?thesis using c1 u1 u2 a b c0 z by blast
qed

subsection \<open>The claims about notifications\<close>

text \<open>
  \<^bold>\<open>Claim C1\<close> says that \<^verbatim>\<open>onUploadComplete\<close> is called once when the batch completes and
  not again on later changes such as the removal of a file. After a photo and an oversized movie
  are added and the photo's upload completes at its sixth tick, the log holds one call; removing
  the movie then adds a second call.
\<close>

theorem uploadComplete_refires_counterexample:
  "(map_option (\<lambda>s. length (filter isUploadComplete (calls s)))
      (run defaultProps [] (oneUploadRunning @ [UploadTick 0 (3/4)])),
    map_option (\<lambda>s. length (filter isUploadComplete (calls s)))
      (run defaultProps [] (oneUploadRunning @ [UploadTick 0 (3/4), RemoveNew ''p8w1m5z7c''])))
   = (Some 1, Some 2)"
  by (simp add: oneUploadRunning_def eval)

text \<open>
  \<^bold>\<open>Claim C1, amended.\<close> In every state of a run, an event adds a call of
  \<^verbatim>\<open>onUploadComplete\<close> exactly when it assigns the local pending list (an accepted add, the
  removal of a local file, a clear, a tick of an upload interval) and leaves it non-empty, with
  every file uploaded or in error and at least one uploaded; it then adds exactly one call, with
  the uploaded files. So the call is made once when a batch completes, and once more after each
  later event of these kinds that leaves the list in such a state.
\<close>

theorem uploadComplete_calls:
  assumes "run P host es = Some s" and "step P e s = Some s'"
  shows "filter isUploadComplete (calls s') = filter isUploadComplete (calls s) @
     (if assignsUploadedFiles P e s \<and> allNewUploaded s' \<and> list_ex uf_uploaded (uploadedFiles s')
      then [UploadComplete (filter uf_uploaded (uploadedFiles s'))] else [])"
proof -
  from assms(2) have s': "s' = commit (handle P e s)"
    by (simp add: step_def split: if_splits)
  from assms(1) have "\<not> uploadedFilesChanged s"
    using settled_run by (simp add: settled_def)
  then show ?thesis
    unfolding s'
    by (simp add: commit_calls handle_uploadedFilesChanged handle_uploadComplete)
qed

theorem uploadComplete_calls_witness:
  "run defaultProps [] oneUploadRunning \<noteq> None \<and>
   step defaultProps (UploadTick 0 (3/4)) (the (run defaultProps [] oneUploadRunning)) \<noteq> None \<and>
   filter isUploadComplete (calls (the (run defaultProps [] oneUploadRunning))) = [] \<and>
   map (\<lambda>c. case c of UploadComplete files \<Rightarrow> map uf_file files | _ \<Rightarrow> [])
     (filter isUploadComplete
        (calls (the (step defaultProps (UploadTick 0 (3/4))
                  (the (run defaultProps [] oneUploadRunning)))))) = [[photo]]"
proof -
  let ?s = "the (run defaultProps [] oneUploadRunning)"
  let ?s' = "the (step defaultProps (UploadTick 0 (3/4)) ?s)"
  have r: "run defaultProps [] oneUploadRunning \<noteq> None"
    by (simp add: oneUploadRunning_def eval)
  have t: "step defaultProps (UploadTick 0 (3/4)) ?s \<noteq> None"
    by (simp add: oneUploadRunning_def eval)
  have c0: "filter isUploadComplete (calls ?s) = []"
    by (simp add: oneUploadRunning_def eval)
  have c1: "assignsUploadedFiles defaultProps (UploadTick 0 (3/4)) ?s \<and> allNewUploaded ?s' \<and>
     list_ex uf_uploaded (uploadedFiles ?s')"
    by (simp add: oneUploadRunning_def eval)
  have c2: "map uf_file (filter uf_uploaded (uploadedFiles ?s')) = [photo]"
    by (simp add: oneUploadRunning_def eval)
  show ?thesis
    using uploadComplete_calls [OF Some_the [OF r] Some_the [OF t]] r t c0 c1 c2 by simp
qed

subsection \<open>The claims about the removal interval\<close>

text \<open>
  \<^bold>\<open>Claim C9.\<close> In every state of a run the removal interval exists exactly when an entry
  is pending deletion, so it is cleared when the last entry leaves and created again by the
  next removal; with no entry pending the interval cannot fire, and with an entry pending it
  can.
\<close>

theorem sweepInterval_lifetime:
  assumes "run P host es = Some s"
  shows "(sweepInterval s \<longleftrightarrow> undoableRemovals s \<noteq> []) \<and>
         (undoableRemovals s = [] \<longrightarrow> step P (SweepTick now) s = None) \<and>
         (undoableRemovals s \<noteq> [] \<longrightarrow> step P (SweepTick now) s \<noteq> None)"
  using settled_run [OF assms] by (simp add: settled_def step_def)

theorem sweepInterval_lifetime_witness:
  "run defaultProps [remoteA] onePending \<noteq> None \<and>
   sweepInterval (the (run defaultProps [remoteA] onePending)) \<and>
   step defaultProps (SweepTick 2000) (the (run defaultProps [remoteA] onePending)) \<noteq> None \<and>
   run defaultProps [remoteA] (onePending @ [Undo 7]) \<noteq> None \<and>
   \<not> sweepInterval (the (run defaultProps [remoteA] (onePending @ [Undo 7]))) \<and>
   step defaultProps (SweepTick 2000) (the (run defaultProps [remoteA] (onePending @ [Undo 7]))) = None"
proof -
  have r1: "run defaultProps [remoteA] onePending \<noteq> None"
    and r2: "run defaultProps [remoteA] (onePending @ [Undo 7]) \<noteq> None"
    by (simp_all add: onePending_def eval remoteA_def)
  have u1: "undoableRemovals (the (run defaultProps [remoteA] onePending)) \<noteq> []"
    and u2: "undoableRemovals (the (run defaultProps [remoteA] (onePending @ [Undo 7]))) = []"
    by (simp_all add: onePending_def eval remoteA_def)
  show ?thesis
    using sweepInterval_lifetime [OF Some_the [OF r1], of 2000]
      sweepInterval_lifetime [OF Some_the [OF r2], of 2000] r1 r2 u1 u2
    by blast
qed

text \<open>
  \<^bold>\<open>Claim C10.\<close> In every state of a run, \<^verbatim>\<open>clearAll\<close> empties the local pending files
  and the displayed remote files and leaves the pending-deletion entries, the confirmed
  identifiers and the removal interval as they were. Every entry pending before the clear is
  still there with its removal time: a tick of the interval before its ten seconds are over keeps
  it, and a tick from then on removes it and appends its identifier to the confirmed list.
\<close>

theorem clearAll_keeps_pending_deletions:
  assumes "run P host es = Some s" and "step P ClearAll s = Some s'"
  shows "uploadedFiles s' = [] \<and> displayExistingFiles s' = [] \<and>
         undoableRemovals s' = undoableRemovals s \<and> removedImageIds s' = removedImageIds s \<and>
         sweepInterval s' = sweepInterval s \<and>
         (\<forall>r\<in>set (undoableRemovals s). \<forall>now.
            (\<exists>s''. step P (SweepTick now) s' = Some s'' \<and>
               (if ur_removedAt r + 10000 \<le> now
                then ur_id r \<in> set (removedImageIds s'') \<and> r \<notin> set (undoableRemovals s'')
                else r \<in> set (undoableRemovals s''))))"
proof -
  have st: "settled s" using assms(1) by (rule settled_run)
  from assms(2) have s': "s' = commit (clearAll s)"
    by (simp add: step_def split: if_splits)
  have f: "uploadedFiles s' = []" "undoableRemovals s' = undoableRemovals s"
    "removedImageIds s' = removedImageIds s"
    unfolding s' by (simp_all add: clearAll_def setters)
  have d: "displayExistingFiles s' = []"
    unfolding s' using st
    by (simp add: commit_display settled_def clearAll_def setters)
  have t: "sweepInterval s' = sweepInterval s"
    unfolding s' using st
    by (simp add: commit_sweepInterval settled_def clearAll_def setters)
  have sw: "\<exists>s''. step P (SweepTick now) s' = Some s'' \<and>
               (if ur_removedAt r + 10000 \<le> now
                then ur_id r \<in> set (removedImageIds s'') \<and> r \<notin> set (undoableRemovals s'')
                else r \<in> set (undoableRemovals s''))"
    if r: "r \<in> set (undoableRemovals s)" for r now
  proof -
    from r have "undoableRemovals s \<noteq> []" by auto
    then have "sweepInterval s'" using st t by (simp add: settled_def)
    then have "step P (SweepTick now) s' = Some (commit (sweepTick now s'))"
      by (simp add: step_def)
    moreover have "ur_removedAt r + 10000 \<le> now \<Longrightarrow>
        ur_id r \<in> set (removedImageIds (commit (sweepTick now s'))) \<and>
        r \<notin> set (undoableRemovals (commit (sweepTick now s')))"
      using r by (simp add: sweepTick_eq f)
    moreover have "\<not> ur_removedAt r + 10000 \<le> now \<Longrightarrow>
        r \<in> set (undoableRemovals (commit (sweepTick now s')))"
      using r by (simp add: sweepTick_eq f)
    ultimately show ?thesis by simp
  qed
  show ?thesis using f d t sw by blast
qed

theorem clearAll_keeps_pending_deletions_witness:
  "run defaultProps [remoteA, remoteB] onePending \<noteq> None \<and>
   step defaultProps ClearAll (the (run defaultProps [remoteA, remoteB] onePending)) \<noteq> None \<and>
   \<lparr>ur_id = 7, ur_file = remoteA, ur_removedAt = 1000\<rparr>
     \<in> set (undoableRemovals (the (run defaultProps [remoteA, remoteB] onePending))) \<and>
   (\<exists>s''. step defaultProps (SweepTick 11000)
            (the (step defaultProps ClearAll (the (run defaultProps [remoteA, remoteB] onePending))))
           = Some s'' \<and> 7 \<in> set (removedImageIds s'') \<and> undoableRemovals s'' = [])"
proof -
  let ?s = "the (run defaultProps [remoteA, remoteB] onePending)"
  let ?s' = "the (step defaultProps ClearAll ?s)"
  let ?r = "\<lparr>ur_id = 7, ur_file = remoteA, ur_removedAt = 1000\<rparr>"
  have r: "run defaultProps [remoteA, remoteB] onePending \<noteq> None"
    by (simp add: onePending_def eval remoteA_def remoteB_def)
  have c: "step defaultProps ClearAll ?s \<noteq> None"
    by (simp add: onePending_def eval remoteA_def remoteB_def)
  have m: "undoableRemovals ?s = [?r]"
    by (simp add: onePending_def eval remoteA_def remoteB_def)
  then have m': "?r \<in> set (undoableRemovals ?s)" by simp
  from clearAll_keeps_pending_deletions [OF Some_the [OF r] Some_the [OF c]] m'
  obtain s'' where s'': "step defaultProps (SweepTick 11000) ?s' = Some s''"
    "if ur_removedAt ?r + 10000 \<le> 11000
     then ur_id ?r \<in> set (removedImageIds s'') \<and> ?r \<notin> set (undoableRemovals s'')
     else ?r \<in> set (undoableRemovals s'')"
    by blast
  have k: "undoableRemovals ?s' = [?r]"
    using clearAll_keeps_pending_deletions [OF Some_the [OF r] Some_the [OF c]] m by simp
  have "undoableRemovals s'' = []"
    using s''(1) k by (auto simp: step_def sweepTick_eq split: if_splits)
  moreover have "7 \<in> set (removedImageIds s'')" using s''(2) by simp
  ultimately show ?thesis using r c m' s''(1) by blast
qed











subsection \<open>The claims about the remote files\<close>

text \<open>
  \<^bold>\<open>Claim C4\<close> says that in every reachable state the displayed remote files and the files
  pending deletion are together the host's files minus the confirmed ones, and that clear
  preserves this. With one remote file, a clear leaves all three pools empty while the host's list
  still holds the file.
\<close>

theorem clearAll_loses_remote_files_counterexample:
  "map_option (\<lambda>s. (displayExistingFiles s, undoableRemovals s, removedImageIds s,
       existingFiles s, remoteFilesAccounted s))
     (run defaultProps [remoteA] [ClearAll]) =
   Some ([], [], [], [remoteA], False)"
  by (simp add: eval remoteFilesAccounted_def)

text \<open>The remote pools after a step that is not a new host list.\<close>

lemma step_remote_pools:
  assumes "settled s" and "step P e s = Some s'" and "\<not> clearsOrResupplies e"
  shows "displayExistingFiles s' = displayExistingFiles (handle P e s)"
    and "undoableRemovals s' = undoableRemovals (handle P e s)"
    and "removedImageIds s' = removedImageIds (handle P e s)"
    and "existingFiles s' = existingFiles s"
proof -
  from assms(2) have s': "s' = commit (handle P e s)"
    by (simp add: step_def split: if_splits)
  have "\<not> existingFilesChanged (handle P e s)"
    unfolding handle_existingFilesChanged using assms(1,3)
    by (cases e) (simp_all add: settled_def)
  then show "displayExistingFiles s' = displayExistingFiles (handle P e s)"
    unfolding s' by (rule commit_display)
  show "undoableRemovals s' = undoableRemovals (handle P e s)"
    and "removedImageIds s' = removedImageIds (handle P e s)"
    unfolding s' by simp_all
  show "existingFiles s' = existingFiles s"
    using assms(3) unfolding s' by (cases e) (simp_all add: handlers split: option.splits)
qed

lemma same_id_same_file:
  "distinct (map mt_id D) \<Longrightarrow> f \<in> set D \<Longrightarrow> g \<in> set D \<Longrightarrow> mt_id g = mt_id f \<Longrightarrow> g = f"
  by (meson distinct_map inj_onD)

lemma same_id_same_entry:
  "distinct (map ur_id U) \<Longrightarrow> r \<in> set U \<Longrightarrow> q \<in> set U \<Longrightarrow> ur_id q = ur_id r \<Longrightarrow> q = r"
  by (meson distinct_map inj_onD)

text \<open>Dropping the pending entries that satisfy \<open>Q\<close> and confirming their identifiers.\<close>

lemma accounted_drop:
  assumes d: "distinct (map mt_id D @ map ur_id U)"
    and i: "\<forall>r\<in>set U. ur_id r = mt_id (ur_file r)"
    and a: "set D \<union> set (map ur_file U) = set (filter (\<lambda>f. mt_id f \<notin> R) H)"
    and r: "R' = R \<union> ur_id ` {r \<in> set U. Q r}"
  shows "set D \<union> set (map ur_file (filter (\<lambda>r. \<not> Q r) U)) =
         set (filter (\<lambda>f. mt_id f \<notin> R') H)"
proof (intro set_eqI iffI)
  fix f
  assume "f \<in> set D \<union> set (map ur_file (filter (\<lambda>r. \<not> Q r) U))"
  then consider "f \<in> set D" | q where "q \<in> set U" "\<not> Q q" "f = ur_file q"
    by auto
  then show "f \<in> set (filter (\<lambda>f. mt_id f \<notin> R') H)"
  proof cases
    case 1
    then have "f \<in> set (filter (\<lambda>f. mt_id f \<notin> R) H)" using a by blast
    moreover have "mt_id f \<notin> ur_id ` set U" using d 1 by auto
    ultimately show ?thesis unfolding r by auto
  next
    case 2
    then have "f \<in> set (filter (\<lambda>f. mt_id f \<notin> R) H)" using a by force
    moreover have "mt_id f \<notin> ur_id ` {r \<in> set U. Q r}"
    proof
      assume "mt_id f \<in> ur_id ` {r \<in> set U. Q r}"
      then obtain p where p: "p \<in> set U" "Q p" "ur_id p = mt_id f" by auto
      have "ur_id p = ur_id q" using p(3) 2 i by simp
      then have "p = q" using same_id_same_entry [of U q p] d 2(1) p(1) by simp
      then show False using p(2) 2(2) by simp
    qed
    ultimately show ?thesis unfolding r by auto
  qed
next
  fix f
  assume "f \<in> set (filter (\<lambda>f. mt_id f \<notin> R') H)"
  then have f: "f \<in> set (filter (\<lambda>f. mt_id f \<notin> R) H)" "mt_id f \<notin> ur_id ` {r \<in> set U. Q r}"
    unfolding r by auto
  then have "f \<in> set D \<union> set (map ur_file U)" using a by blast
  then consider "f \<in> set D" | q where "q \<in> set U" "f = ur_file q" by auto
  then show "f \<in> set D \<union> set (map ur_file (filter (\<lambda>r. \<not> Q r) U))"
  proof cases
    case 1
    then show ?thesis by simp
  next
    case 2
    then have "\<not> Q q" using f(2) i by force
    then show ?thesis using 2 by auto
  qed
qed

lemma distinct_drop:
  "distinct (map mt_id D @ map ur_id U) \<Longrightarrow> distinct (map mt_id D @ map ur_id (filter p U))"
  by (auto simp: distinct_map_filter)

lemma find_SomeD: "find p xs = Some x \<Longrightarrow> p x \<and> x \<in> set xs"
  by (induction xs) (auto split: if_splits)

lemma remote_invariant_same:
  assumes "displayExistingFiles s' = displayExistingFiles s"
    and "undoableRemovals s' = undoableRemovals s"
    and "removedImageIds s' = removedImageIds s"
    and "existingFiles s' = existingFiles s"
    and "remotePoolsDistinct s" and "remoteFilesAccounted s"
  shows "remotePoolsDistinct s' \<and> remoteFilesAccounted s'"
  using assms(5,6) unfolding remotePoolsDistinct_def remoteFilesAccounted_def assms(1-4)
  by (rule conjI)

lemma remote_invariant_step:
  assumes st: "settled s" and d: "remotePoolsDistinct s" and a: "remoteFilesAccounted s"
    and step: "step P e s = Some s'" and e: "\<not> clearsOrResupplies e"
  shows "remotePoolsDistinct s' \<and> remoteFilesAccounted s'"
proof -
  let ?D = "displayExistingFiles s" and ?U = "undoableRemovals s"
  let ?R = "removedImageIds s" and ?H = "existingFiles s"
  note pools = step_remote_pools [OF st step e]
  from d have dist: "distinct (map mt_id ?D @ map ur_id ?U)"
    and ids: "\<forall>r\<in>set ?U. ur_id r = mt_id (ur_file r)"
    unfolding remotePoolsDistinct_def by blast+
  from a have acc: "set ?D \<union> set (map ur_file ?U) = set (filter (\<lambda>f. mt_id f \<notin> set ?R) ?H)"
    by (simp add: remoteFilesAccounted_def)
  from step have en: "enabled P e s" by (simp add: step_def split: if_splits)
  show ?thesis
  proof (cases e)
    case (Add fileArray newId)
    show ?thesis
      by (rule remote_invariant_same [OF _ _ _ _ d a])
         (simp_all add: pools Add processFiles_cases setters Let_def)
  next
    case (RemoveNew fileId)
    show ?thesis
      by (rule remote_invariant_same [OF _ _ _ _ d a])
         (simp_all add: pools RemoveNew removeNewFile_def setters Let_def)
  next
    case (RemoveExisting rf now)
    with en have f: "rf \<in> set ?D" by simp
    have same: "\<And>g. g \<in> set ?D \<Longrightarrow> mt_id g = mt_id rf \<Longrightarrow> g = rf"
      using same_id_same_file [of ?D rf] dist f by simp
    have h: "displayExistingFiles s' = filter (\<lambda>g. mt_id g \<noteq> mt_id rf) ?D"
      "undoableRemovals s' = ?U @ [\<lparr>ur_id = mt_id rf, ur_file = rf, ur_removedAt = now\<rparr>]"
      "removedImageIds s' = ?R" "existingFiles s' = ?H"
      by (simp_all add: pools RemoveExisting removeExistingFile_def setters Let_def)
    have "distinct (map mt_id (displayExistingFiles s') @ map ur_id (undoableRemovals s'))"
      using dist f unfolding h by (auto simp: distinct_map_filter)
    moreover have "\<forall>r\<in>set (undoableRemovals s'). ur_id r = mt_id (ur_file r)"
      using ids unfolding h by simp
    moreover have "set (displayExistingFiles s') \<union> set (map ur_file (undoableRemovals s')) =
                   set ?D \<union> set (map ur_file ?U)"
      using f same unfolding h by auto
    ultimately show ?thesis
      using acc by (simp add: remotePoolsDistinct_def remoteFilesAccounted_def h(3,4))
  next
    case (Undo fileId)
    with en have "fileId \<in> ur_id ` set ?U" by simp
    then have "find (\<lambda>r. ur_id r = fileId) ?U \<noteq> None"
      by (auto simp: find_None_iff)
    then obtain r where fr: "find (\<lambda>r. ur_id r = fileId) ?U = Some r" by auto
    then have r: "ur_id r = fileId" "r \<in> set ?U" using find_SomeD by fastforce+
    have du: "distinct (map ur_id ?U)" using dist by simp
    have same: "\<And>q. q \<in> set ?U \<Longrightarrow> ur_id q = fileId \<Longrightarrow> q = r"
      using same_id_same_entry [OF du r(2)] r(1) by simp
    have h: "displayExistingFiles s' = ?D @ [ur_file r]"
      "undoableRemovals s' = filter (\<lambda>q. ur_id q \<noteq> fileId) ?U"
      "removedImageIds s' = ?R" "existingFiles s' = ?H"
      by (simp_all add: pools Undo undoRemoval_def fr setters)
    have "mt_id (ur_file r) = fileId" using ids r by simp
    moreover have "fileId \<notin> mt_id ` set ?D" using dist r by force
    ultimately have "distinct (map mt_id (displayExistingFiles s') @ map ur_id (undoableRemovals s'))"
      using dist unfolding h by (auto simp: distinct_map_filter)
    moreover have "\<forall>r\<in>set (undoableRemovals s'). ur_id r = mt_id (ur_file r)"
      using ids unfolding h by simp
    moreover have "set (displayExistingFiles s') \<union> set (map ur_file (undoableRemovals s')) =
                   set ?D \<union> set (map ur_file ?U)"
      using r same unfolding h by force
    ultimately show ?thesis
      using acc by (simp add: remotePoolsDistinct_def remoteFilesAccounted_def h(3,4))
  next
    case (Confirm fileId)
    with en have "fileId \<in> ur_id ` set ?U" by simp
    then have rr: "set (?R @ [fileId]) = set ?R \<union> ur_id ` {r \<in> set ?U. ur_id r = fileId}"
      by auto
    have h: "displayExistingFiles s' = ?D"
      "undoableRemovals s' = filter (\<lambda>q. \<not> ur_id q = fileId) ?U"
      "removedImageIds s' = ?R @ [fileId]" "existingFiles s' = ?H"
      by (simp_all add: pools Confirm confirmRemoval_def setters)
    show ?thesis
      using accounted_drop [OF dist ids acc rr] distinct_drop [OF dist] ids
      unfolding remotePoolsDistinct_def remoteFilesAccounted_def h by simp
  next
    case ClearAll
    then show ?thesis using e by simp
  next
    case ManualUpload
    show ?thesis
      by (rule remote_invariant_same [OF _ _ _ _ d a])
         (simp_all add: pools ManualUpload manualUpload_def startUploads_eq)
  next
    case (UploadTick k r)
    show ?thesis
      by (rule remote_invariant_same [OF _ _ _ _ d a])
         (simp_all add: pools UploadTick uploadIntervalTick_eq)
  next
    case (SweepTick now)
    let ?dead = "\<lambda>r. ur_removedAt r + 10000 - now \<le> 0"
    have rr: "set (?R @ map ur_id (filter ?dead ?U)) = set ?R \<union> ur_id ` {r \<in> set ?U. ?dead r}"
      by auto
    have h: "displayExistingFiles s' = ?D"
      "undoableRemovals s' = filter (\<lambda>q. \<not> ?dead q) ?U"
      "removedImageIds s' = ?R @ map ur_id (filter ?dead ?U)" "existingFiles s' = ?H"
      by (simp_all add: pools SweepTick sweepTick_eq)
    show ?thesis
      using accounted_drop [OF dist ids acc rr] distinct_drop [OF dist] ids
      unfolding remotePoolsDistinct_def remoteFilesAccounted_def h by simp
  next
    case (HostSupplies host)
    then show ?thesis using e by simp
  qed
qed

lemma remote_invariant_steps:
  assumes "settled s" and "remotePoolsDistinct s" and "remoteFilesAccounted s"
    and "steps P es s = Some s'" and "list_all (\<lambda>e. \<not> clearsOrResupplies e) es"
  shows "remotePoolsDistinct s' \<and> remoteFilesAccounted s' \<and> existingFiles s' = existingFiles s"
  using assms
proof (induction es arbitrary: s)
  case Nil
  then show ?case by simp
next
  case (Cons e es)
  from Cons.prems(4) obtain s1 where s1: "step P e s = Some s1" "steps P es s1 = Some s'"
    by (auto split: option.splits)
  from Cons.prems(5) have e: "\<not> clearsOrResupplies e" and es: "list_all (\<lambda>e. \<not> clearsOrResupplies e) es"
    by simp_all
  have "settled s1" using Cons.prems(1) s1(1) by (rule settled_step)
  moreover have "remotePoolsDistinct s1 \<and> remoteFilesAccounted s1"
    using Cons.prems(1-3) s1(1) e by (rule remote_invariant_step)
  moreover have "existingFiles s1 = existingFiles s"
    using step_remote_pools(4) [OF Cons.prems(1) s1(1) e] .
  ultimately show ?case using Cons.IH [OF _ _ _ s1(2) es] by simp
qed

text \<open>
  \<^bold>\<open>Claim C4, amended.\<close> When the host's identifiers are distinct, in every state reached
  from the mounted component by adds, removals of local and of remote files, undos,
  confirmations, manual uploads, upload ticks and sweep ticks (no clear, and no new list from
  the host), the displayed remote files and the files pending deletion are together the
  host's files whose identifier is not in the confirmed list.
\<close>

theorem remote_files_accounted:
  assumes "distinct (map mt_id host)" and "run P host es = Some s"
    and "list_all (\<lambda>e. \<not> clearsOrResupplies e) es"
  shows "existingFiles s = host \<and>
         set (displayExistingFiles s) \<union> set (map ur_file (undoableRemovals s)) =
         set (filter (\<lambda>f. mt_id f \<notin> set (removedImageIds s)) host)"
proof -
  have "remotePoolsDistinct (mount host)" "remoteFilesAccounted (mount host)"
    using assms(1) by (simp_all add: remotePoolsDistinct_def remoteFilesAccounted_def mount_eq)
  from remote_invariant_steps [OF settled_mount this assms(2) [unfolded run_def] assms(3)]
  show ?thesis by (simp add: remoteFilesAccounted_def mount_eq)
qed

theorem remote_files_accounted_witness:
  "distinct (map mt_id [remoteA, remoteB]) \<and>
   run defaultProps [remoteA, remoteB] removeUndoRemoveConfirm \<noteq> None \<and>
   list_all (\<lambda>e. \<not> clearsOrResupplies e) removeUndoRemoveConfirm \<and>
   removedImageIds (the (run defaultProps [remoteA, remoteB] removeUndoRemoveConfirm)) = [8] \<and>
   set (displayExistingFiles (the (run defaultProps [remoteA, remoteB] removeUndoRemoveConfirm))) \<union>
   set (map ur_file (undoableRemovals (the (run defaultProps [remoteA, remoteB] removeUndoRemoveConfirm))))
     = {remoteA}"
proof -
  let ?s = "the (run defaultProps [remoteA, remoteB] removeUndoRemoveConfirm)"
  have h1: "distinct (map mt_id [remoteA, remoteB])"
    by (simp add: remoteA_def remoteB_def)
  have h2: "run defaultProps [remoteA, remoteB] removeUndoRemoveConfirm \<noteq> None"
    by (simp add: removeUndoRemoveConfirm_def eval remoteA_def remoteB_def)
  have h3: "list_all (\<lambda>e. \<not> clearsOrResupplies e) removeUndoRemoveConfirm"
    by (simp add: removeUndoRemoveConfirm_def)
  have r: "removedImageIds ?s = [8]"
    by (simp add: removeUndoRemoveConfirm_def eval remoteA_def remoteB_def)
  have "set (filter (\<lambda>f. mt_id f \<notin> set [8]) [remoteA, remoteB]) = {remoteA}"
    by (simp add: remoteA_def remoteB_def)
  then show ?thesis
    using remote_files_accounted [OF h1 Some_the [OF h2] h3] h1 h2 h3 r by simp
qed

subsection \<open>The claim about the displayed list\<close>

text \<open>
  \<^bold>\<open>Claim C8\<close> says that the remote files are displayed in the host's order after every
  operation, an undo included. Removing the first of two remote files and undoing the removal
  displays it after the second.
\<close>

theorem undo_appends_counterexample:
  "map_option allFiles
     (run defaultProps [remoteA, remoteB] [RemoveExisting remoteA 1000, Undo 7]) =
   Some [Existing remoteB, Existing remoteA]"
  by (simp add: eval remoteA_def remoteB_def)

lemma sync_condition:
  "(length prev = length mapped \<and>
    list_all (\<lambda>i. mt_id (prev ! i) = mt_id (mapped ! i)) [0..<length prev]) =
   (map mt_id prev = map mt_id mapped)"
proof -
  have "list_all (\<lambda>i. mt_id (prev ! i) = mt_id (mapped ! i)) [0..<length prev] =
        (\<forall>i<length prev. mt_id (prev ! i) = mt_id (mapped ! i))"
    by (auto simp: list_all_iff)
  moreover have "(map mt_id prev = map mt_id mapped) =
        (length prev = length mapped \<and> (\<forall>i<length prev. mt_id (prev ! i) = mt_id (mapped ! i)))"
    by (subst list_eq_iff_nth_eq) auto
  ultimately show ?thesis by blast
qed

lemma commit_display_sync:
  "displayExistingFiles (commit s) =
     (if existingFilesChanged s \<and>
         map mt_id (displayExistingFiles s) \<noteq> map mt_id (existingFiles s)
      then existingFiles s else displayExistingFiles s)"
  using sync_condition [of "displayExistingFiles s" "existingFiles s"]
  by (auto simp: commit_def syncExistingFiles_def uploadCompleteEffect_def
        removalTimerEffect_def setters Let_def)

lemma uploadTick_ids:
  "map uf_id (snd (snd (uploadTick rnd fileId progress r prev))) = map uf_id prev"
  by (simp add: uploadTick_def Let_def o_def)

lemma host_order_step:
  assumes st: "settled s"
    and k: "subseq (map mt_id (displayExistingFiles s)) (map mt_id (existingFiles s))"
    and step: "step P e s = Some s'" and e: "\<not> isUndo e"
  shows "subseq (map mt_id (displayExistingFiles s')) (map mt_id (existingFiles s'))"
proof -
  from step have s': "s' = commit (handle P e s)"
    by (simp add: step_def split: if_splits)
  from st have nc: "\<not> existingFilesChanged s" by (simp add: settled_def)
  show ?thesis
  proof (cases "clearsOrResupplies e")
    case True
    then show ?thesis
      using nc unfolding s'
      by (cases e) (auto simp: commit_display_sync clearAll_def setters)
  next
    case False
    note pools = step_remote_pools [OF st step False]
    have "subseq (map mt_id (displayExistingFiles (handle P e s)))
            (map mt_id (displayExistingFiles s))"
      using e False
      by (cases e)
         (simp_all add: processFiles_cases removeNewFile_def removeExistingFile_def
            confirmRemoval_def manualUpload_def startUploads_eq uploadIntervalTick_eq
            sweepTick_eq setters Let_def subseq_map)
    then show ?thesis
      using k unfolding pools by (rule subseq_order.trans)
  qed
qed

lemma host_order_steps:
  assumes "settled s"
    and "subseq (map mt_id (displayExistingFiles s)) (map mt_id (existingFiles s))"
    and "steps P es s = Some s'" and "list_all (\<lambda>e. \<not> isUndo e) es"
  shows "subseq (map mt_id (displayExistingFiles s')) (map mt_id (existingFiles s'))"
  using assms
proof (induction es arbitrary: s)
  case Nil
  then show ?case by simp
next
  case (Cons e es)
  from Cons.prems(3) obtain s1 where s1: "step P e s = Some s1" "steps P es s1 = Some s'"
    by (auto split: option.splits)
  from Cons.prems(4) have e: "\<not> isUndo e" and es: "list_all (\<lambda>e. \<not> isUndo e) es"
    by simp_all
  show ?case
    using Cons.IH [OF settled_step [OF Cons.prems(1) s1(1)]
        host_order_step [OF Cons.prems(1,2) s1(1) e] s1(2) es] .
qed

lemma local_order_step:
  assumes "step P e s = Some s'"
  shows "if isAdd e then prefix (map uf_id (uploadedFiles s)) (map uf_id (uploadedFiles s'))
         else subseq (map uf_id (uploadedFiles s')) (map uf_id (uploadedFiles s))"
proof -
  from assms have s': "s' = commit (handle P e s)"
    by (simp add: step_def split: if_splits)
  show ?thesis
    unfolding s'
    by (cases e)
       (simp_all add: processFiles_cases removeNewFile_def removeExistingFile_def
          undoRemoval_def confirmRemoval_def clearAll_def manualUpload_def startUploads_eq
          uploadIntervalTick_eq uploadTick_ids sweepTick_eq setters Let_def subseq_map
          split: option.splits)
qed

text \<open>
  \<^bold>\<open>Claim C8, amended.\<close> In every state of a run the displayed list is the displayed remote
  files followed by the local pending files. As long as no removal has been undone, the
  identifiers of the displayed remote files are in the order of the host's current list; an undo
  appends the restored file at the end of the displayed remote files. An add keeps the local
  files and places the new ones after them, and every other event keeps the remaining local
  files in their order.
\<close>

theorem display_order:
  assumes "run P host es = Some s"
  shows "allFiles s = map Existing (displayExistingFiles s) @ map New (uploadedFiles s) \<and>
         (list_all (\<lambda>e. \<not> isUndo e) es \<longrightarrow>
            subseq (map mt_id (displayExistingFiles s)) (map mt_id (existingFiles s))) \<and>
         (\<forall>e s'. step P e s = Some s' \<longrightarrow>
            (if isAdd e then prefix (map uf_id (uploadedFiles s)) (map uf_id (uploadedFiles s'))
             else subseq (map uf_id (uploadedFiles s')) (map uf_id (uploadedFiles s))) \<and>
            (\<forall>fileId r. e = Undo fileId \<and>
                find (\<lambda>r. ur_id r = fileId) (undoableRemovals s) = Some r \<longrightarrow>
                displayExistingFiles s' = displayExistingFiles s @ [ur_file r]))"
proof (intro conjI impI allI)
  show "allFiles s = map Existing (displayExistingFiles s) @ map New (uploadedFiles s)"
    by (simp add: allFiles_def)
next
  assume "list_all (\<lambda>e. \<not> isUndo e) es"
  moreover have "subseq (map mt_id (displayExistingFiles (mount host)))
                   (map mt_id (existingFiles (mount host)))"
    by (simp add: mount_eq)
  ultimately show "subseq (map mt_id (displayExistingFiles s)) (map mt_id (existingFiles s))"
    using host_order_steps [OF settled_mount _ assms [unfolded run_def]] by blast
next
  fix e s'
  assume "step P e s = Some s'"
  then show "if isAdd e then prefix (map uf_id (uploadedFiles s)) (map uf_id (uploadedFiles s'))
             else subseq (map uf_id (uploadedFiles s')) (map uf_id (uploadedFiles s))"
    by (rule local_order_step)
next
  fix e s' fileId r
  assume step: "step P e s = Some s'"
    and u: "e = Undo fileId \<and> find (\<lambda>r. ur_id r = fileId) (undoableRemovals s) = Some r"
  have st: "settled s" using assms by (rule settled_run)
  from step u have s': "s' = commit (undoRemoval fileId s)"
    by (simp add: step_def split: if_splits)
  have "\<not> existingFilesChanged (undoRemoval fileId s)"
    using st u by (simp add: settled_def undoRemoval_def setters)
  then show "displayExistingFiles s' = displayExistingFiles s @ [ur_file r]"
    unfolding s' using u by (simp add: commit_display undoRemoval_def setters)
qed

theorem display_order_witness:
  "run defaultProps [remoteA, remoteB] localAndPending \<noteq> None \<and>
   list_all (\<lambda>e. \<not> isUndo e) localAndPending \<and>
   map mt_id (displayExistingFiles (the (run defaultProps [remoteA, remoteB] localAndPending))) = [8] \<and>
   subseq [8] (map mt_id [remoteA, remoteB]) \<and>
   step defaultProps (Undo 7) (the (run defaultProps [remoteA, remoteB] localAndPending)) \<noteq> None \<and>
   find (\<lambda>r. ur_id r = 7)
     (undoableRemovals (the (run defaultProps [remoteA, remoteB] localAndPending)))
     = Some \<lparr>ur_id = 7, ur_file = remoteA, ur_removedAt = 1000\<rparr> \<and>
   displayExistingFiles
     (the (step defaultProps (Undo 7) (the (run defaultProps [remoteA, remoteB] localAndPending)))) =
     [remoteB, remoteA] \<and>
   step defaultProps (Add [clip] (\<lambda>i. ''m2c7r5d1s''))
     (the (run defaultProps [remoteA, remoteB] localAndPending)) \<noteq> None \<and>
   isAdd (Add [clip] (\<lambda>i. ''m2c7r5d1s'')) \<and>
   map uf_id (uploadedFiles (the (run defaultProps [remoteA, remoteB] localAndPending))) =
     [''k3j9x0q2a''] \<and>
   prefix [''k3j9x0q2a'']
     (map uf_id (uploadedFiles (the (step defaultProps (Add [clip] (\<lambda>i. ''m2c7r5d1s''))
        (the (run defaultProps [remoteA, remoteB] localAndPending))))))"
proof -
  let ?s = "the (run defaultProps [remoteA, remoteB] localAndPending)"
  let ?add = "Add [clip] (\<lambda>i. ''m2c7r5d1s'')"
  have r: "run defaultProps [remoteA, remoteB] localAndPending \<noteq> None"
    by (simp add: localAndPending_def eval remoteA_def remoteB_def)
  have n: "list_all (\<lambda>e. \<not> isUndo e) localAndPending"
    by (simp add: localAndPending_def)
  have d: "displayExistingFiles ?s = [remoteB]" "existingFiles ?s = [remoteA, remoteB]"
    by (simp_all add: localAndPending_def eval remoteA_def remoteB_def)
  have l: "map uf_id (uploadedFiles ?s) = [''k3j9x0q2a'']"
    by (simp add: localAndPending_def eval remoteA_def remoteB_def)
  have i: "mt_id remoteB = 8" by (simp add: remoteB_def)
  have u: "step defaultProps (Undo 7) ?s \<noteq> None"
    by (simp add: localAndPending_def eval remoteA_def remoteB_def)
  have a: "step defaultProps ?add ?s \<noteq> None"
    by (simp add: step_def defaultProps_fields)
  have ia: "isAdd ?add" by simp
  have f: "find (\<lambda>r. ur_id r = 7) (undoableRemovals ?s) =
           Some \<lparr>ur_id = 7, ur_file = remoteA, ur_removedAt = 1000\<rparr>"
    by (simp add: localAndPending_def eval remoteA_def remoteB_def)
  note t = display_order [OF Some_the [OF r]]
  from t n have "subseq (map mt_id (displayExistingFiles ?s)) (map mt_id (existingFiles ?s))"
    by blast
  then have o: "subseq [8] (map mt_id [remoteA, remoteB])"
    unfolding d using i by simp
  from t Some_the [OF u] f
  have "displayExistingFiles (the (step defaultProps (Undo 7) ?s)) =
        displayExistingFiles ?s @ [ur_file \<lparr>ur_id = 7, ur_file = remoteA, ur_removedAt = 1000\<rparr>]"
    by blast
  then have b: "displayExistingFiles (the (step defaultProps (Undo 7) ?s)) = [remoteB, remoteA]"
    unfolding d by simp
  from t Some_the [OF a]
  have "if isAdd ?add
        then prefix (map uf_id (uploadedFiles ?s))
               (map uf_id (uploadedFiles (the (step defaultProps ?add ?s))))
        else subseq (map uf_id (uploadedFiles (the (step defaultProps ?add ?s))))
               (map uf_id (uploadedFiles ?s))"
    by blast
  then have p: "prefix [''k3j9x0q2a'']
     (map uf_id (uploadedFiles (the (step defaultProps ?add ?s))))"
    unfolding l using ia by simp
  show ?thesis using r n d i u f o b a ia l p by simp
qed

subsection \<open>The claim about the simulated upload\<close>

lemma roundingLaws_exactDouble: "roundingLaws exactDouble"
  by (auto simp: roundingLaws_def exactDouble_def mono_def)

lemma rounding_facts:
  assumes "roundingLaws rnd"
  shows "rnd 0 = 0" and "rnd (rnd x) = rnd x" and "x \<le> y \<Longrightarrow> rnd x \<le> rnd y"
proof -
  from assms have m: "mono rnd" and c: "rnd \<circ> rnd = rnd" and z: "rnd 0 = 0"
    by (simp_all add: roundingLaws_def)
  show "rnd 0 = 0" by (rule z)
  show "rnd (rnd x) = rnd x" using c by (metis comp_apply)
  show "x \<le> y \<Longrightarrow> rnd x \<le> rnd y" using m by (rule monoD)
qed

lemma track_Nil [simp]: "progressTrack rnd fileId progress [] prev i = []"
  by (simp add: progressTrack_def)

lemma track_done:
  assumes "100 \<le> rnd (progress + rnd (r * 25))" and "i < length prev"
    and "uf_id (prev ! i) = fileId"
  shows "progressTrack rnd fileId progress (r # rs) prev i =
           [(prev ! i)\<lparr>uf_progress := 100, uf_uploaded := True\<rparr>]"
  using assms by (simp add: progressTrack_def uploadTick_def Let_def)

lemma track_more:
  assumes "\<not> 100 \<le> rnd (progress + rnd (r * 25))" and "i < length prev"
    and "uf_id (prev ! i) = fileId"
  shows "progressTrack rnd fileId progress (r # rs) prev i =
           (prev ! i)\<lparr>uf_progress := rnd (progress + rnd (r * 25))\<rparr> #
           progressTrack rnd fileId (rnd (progress + rnd (r * 25))) rs
             (map (\<lambda>f. if uf_id f = fileId
                       then f\<lparr>uf_progress := rnd (progress + rnd (r * 25))\<rparr> else f) prev) i"
  using assms by (simp add: progressTrack_def uploadTick_def Let_def)

lemma progressTrack_values:
  assumes "i < length prev" and "uf_id (prev ! i) = fileId"
    and "j < length (progressTrack rnd fileId progress rs prev i)"
  shows "uf_progress (progressTrack rnd fileId progress rs prev i ! j) =
           min 100 (accumulated rnd progress (take (Suc j) rs))"
  using assms
proof (induction rs arbitrary: progress prev j)
  case Nil
  then show ?case by simp
next
  case (Cons r rs)
  let ?p = "rnd (progress + rnd (r * 25))"
  show ?case
  proof (cases "100 \<le> ?p")
    case True
    note t = track_done [where rnd = rnd and rs = rs, OF True Cons.prems(1,2)]
    from Cons.prems(3) have "j = 0" unfolding t by simp
    then show ?thesis using True unfolding t by (simp add: accumulated_def)
  next
    case False
    let ?prev = "map (\<lambda>f. if uf_id f = fileId then f\<lparr>uf_progress := ?p\<rparr> else f) prev"
    note t = track_more [where rnd = rnd and rs = rs, OF False Cons.prems(1,2)]
    have i': "i < length ?prev" using Cons.prems(1) by simp
    have id': "uf_id (?prev ! i) = fileId" using Cons.prems(1,2) by simp
    show ?thesis
    proof (cases j)
      case 0
      then show ?thesis using False unfolding t by (simp add: accumulated_def)
    next
      case (Suc j')
      with Cons.prems(3) have "j' < length (progressTrack rnd fileId ?p rs ?prev i)"
        unfolding t by simp
      from Cons.IH [where progress = ?p and prev = ?prev, OF i' id' this]
      show ?thesis unfolding t Suc by (simp add: accumulated_def)
    qed
  qed
qed

lemma progressTrack_facts:
  assumes "roundingLaws rnd" and "\<forall>r\<in>set rs. 0 \<le> r \<and> r < 1" and "i < length prev"
    and "uf_id (prev ! i) = fileId" and "uf_progress (prev ! i) \<le> progress"
    and "rnd progress = progress" and "progress < 100" and "\<not> uf_uploaded (prev ! i)"
  shows "sorted (uf_progress (prev ! i) #
           map uf_progress (progressTrack rnd fileId progress rs prev i)) \<and>
         (\<forall>f\<in>set (progressTrack rnd fileId progress rs prev i).
            uf_progress f \<le> 100 \<and> (uf_uploaded f \<longleftrightarrow> uf_progress f = 100)) \<and>
         (\<forall>f\<in>set (butlast (progressTrack rnd fileId progress rs prev i)). \<not> uf_uploaded f) \<and>
         length (progressTrack rnd fileId progress rs prev i) \<le> length rs \<and>
         ((\<forall>f\<in>set (progressTrack rnd fileId progress rs prev i). \<not> uf_uploaded f) \<longrightarrow>
            length (progressTrack rnd fileId progress rs prev i) = length rs)"
  using assms(2-)
proof (induction rs arbitrary: progress prev)
  case Nil
  then show ?case by simp
next
  case (Cons r rs)
  note laws = rounding_facts [OF assms(1)]
  from Cons.prems(1) have r: "0 \<le> r" and rs: "\<forall>r\<in>set rs. 0 \<le> r \<and> r < 1"
    by simp_all
  let ?p = "rnd (progress + rnd (r * 25))"
  have "0 \<le> rnd (r * 25)" using laws(3) [of 0 "r * 25"] r by (simp add: laws(1))
  then have "progress \<le> progress + rnd (r * 25)" by simp
  then have "rnd progress \<le> ?p" by (rule laws(3))
  then have grow: "progress \<le> ?p" by (simp add: Cons.prems(5))
  show ?case
  proof (cases "100 \<le> ?p")
    case True
    note t = track_done [where rnd = rnd and rs = rs, OF True Cons.prems(2,3)]
    show ?thesis
      using Cons.prems(4,6) unfolding t by simp
  next
    case False
    let ?prev = "map (\<lambda>f. if uf_id f = fileId then f\<lparr>uf_progress := ?p\<rparr> else f) prev"
    let ?tr = "progressTrack rnd fileId ?p rs ?prev i"
    let ?f = "(prev ! i)\<lparr>uf_progress := ?p\<rparr>"
    note t = track_more [where rnd = rnd and rs = rs, OF False Cons.prems(2,3)]
    have i': "i < length ?prev" using Cons.prems(2) by simp
    have at: "?prev ! i = ?f" using Cons.prems(2,3) by simp
    have id': "uf_id (?prev ! i) = fileId" using Cons.prems(3) by (simp add: at)
    have pa: "uf_progress (?prev ! i) = ?p" by (simp add: at)
    have le': "uf_progress (?prev ! i) \<le> ?p" by (simp add: at)
    have fx': "rnd ?p = ?p" by (rule laws(2))
    have lt': "?p < 100" using False by simp
    have nu': "\<not> uf_uploaded (?prev ! i)" using Cons.prems(7) by (simp add: at)
    note IH = Cons.IH [where progress = ?p and prev = ?prev, OF rs i' id' le' fx' lt' nu']
    have ih1: "sorted (uf_progress (?prev ! i) # map uf_progress ?tr)"
      and ih2: "\<forall>f\<in>set ?tr. uf_progress f \<le> 100 \<and> (uf_uploaded f \<longleftrightarrow> uf_progress f = 100)"
      and ih3: "\<forall>f\<in>set (butlast ?tr). \<not> uf_uploaded f"
      and ih4: "length ?tr \<le> length rs"
      and ih5: "(\<forall>f\<in>set ?tr. \<not> uf_uploaded f) \<longrightarrow> length ?tr = length rs"
      using IH by blast+
    have f: "uf_progress ?f = ?p" "\<not> uf_uploaded ?f"
      using Cons.prems(7) by simp_all
    have up: "uf_progress (prev ! i) \<le> ?p" using Cons.prems(4) grow by simp
    have "\<forall>y\<in>set (map uf_progress ?tr). ?p \<le> y" using ih1 unfolding pa by simp
    then have "\<forall>y\<in>set (map uf_progress ?tr). uf_progress (prev ! i) \<le> y"
      using up by fastforce
    then have srt: "sorted (uf_progress (prev ! i) # map uf_progress (?f # ?tr))"
      using ih1 up unfolding pa by simp
    have each: "\<forall>f\<in>set (?f # ?tr).
            uf_progress f \<le> 100 \<and> (uf_uploaded f \<longleftrightarrow> uf_progress f = 100)"
      using ih2 lt' f by simp
    have bl: "\<forall>f\<in>set (butlast (?f # ?tr)). \<not> uf_uploaded f"
      using ih3 f by simp
    have len: "length (?f # ?tr) \<le> length (r # rs)" using ih4 by simp
    have all: "(\<forall>f\<in>set (?f # ?tr). \<not> uf_uploaded f) \<longrightarrow> length (?f # ?tr) = length (r # rs)"
      using ih5 by simp
    show ?thesis
      unfolding t using srt each bl len all by blast
  qed
qed

text \<open>Draws of 0 leave the progress at 0.\<close>

lemma zero_draws_never_complete:
  assumes "rnd 0 = 0" and "i < length prev" and "uf_id (prev ! i) = fileId"
    and "\<not> uf_uploaded (prev ! i)"
  shows "\<forall>f\<in>set (progressTrack rnd fileId 0 (replicate n 0) prev i). \<not> uf_uploaded f"
  using assms(2-)
proof (induction n arbitrary: prev)
  case 0
  then show ?case by simp
next
  case (Suc n)
  have z: "rnd (0 + rnd (0 * 25)) = 0" by (simp add: assms(1))
  then have no: "\<not> 100 \<le> rnd (0 + rnd (0 * 25))" by simp
  let ?prev = "map (\<lambda>f. if uf_id f = fileId then f\<lparr>uf_progress := 0\<rparr> else f) prev"
  have at: "?prev ! i = (prev ! i)\<lparr>uf_progress := 0\<rparr>" using Suc.prems(1,2) by simp
  have "\<forall>f\<in>set (progressTrack rnd fileId 0 (replicate n 0) ?prev i). \<not> uf_uploaded f"
    using Suc.prems by (intro Suc.IH) (simp_all add: at)
  then show ?case
    using track_more [where rnd = rnd and rs = "replicate n 0", OF no Suc.prems(1,2)] Suc.prems(3)
    unfolding z by simp
qed

lemma freshPhoto_fields:
  "uf_id freshPhoto = ''k3j9x0q2a''" "uf_progress freshPhoto = 0" "\<not> uf_uploaded freshPhoto"
  by (simp_all add: freshPhoto_def newUploadedFile_def exampleId_values)

text \<open>
  \<^bold>\<open>Claim C5\<close> says that the progress reaches 100 within a bounded number of ticks. The
  increment of a tick is \<^verbatim>\<open>Math.random() * 25\<close> with a draw from \<open>[0, 1)\<close>, which can be 0:
  no number of ticks is enough for every sequence of draws. The run that shows it draws 0 at
  every tick, where every product and sum is 0 and rounding changes nothing.
\<close>

theorem no_tick_bound_counterexample:
  "\<not> (\<exists>N. \<forall>rs. length rs = N \<and> (\<forall>r\<in>set rs. 0 \<le> r \<and> r < 1) \<longrightarrow>
          (\<exists>f\<in>set (progressTrack exactDouble ''k3j9x0q2a'' 0 rs [freshPhoto] 0). uf_uploaded f))"
proof
  assume "\<exists>N. \<forall>rs. length rs = N \<and> (\<forall>r\<in>set rs. 0 \<le> r \<and> r < 1) \<longrightarrow>
          (\<exists>f\<in>set (progressTrack exactDouble ''k3j9x0q2a'' 0 rs [freshPhoto] 0). uf_uploaded f)"
  then obtain N where N: "\<forall>rs. length rs = N \<and> (\<forall>r\<in>set rs. 0 \<le> r \<and> r < 1) \<longrightarrow>
          (\<exists>f\<in>set (progressTrack exactDouble ''k3j9x0q2a'' 0 rs [freshPhoto] 0). uf_uploaded f)"
    by blast
  let ?rs = "replicate N (0::real)"
  have d: "\<forall>r\<in>set ?rs. 0 \<le> r \<and> r < 1" by simp
  from N d
  have up: "\<exists>f\<in>set (progressTrack exactDouble ''k3j9x0q2a'' 0 ?rs [freshPhoto] 0). uf_uploaded f"
    by simp
  have z: "exactDouble 0 = 0" by (simp add: exactDouble_def)
  have i0: "0 < length [freshPhoto]" and id0: "uf_id ([freshPhoto] ! 0) = ''k3j9x0q2a''"
    and nu: "\<not> uf_uploaded ([freshPhoto] ! 0)"
    by (simp_all add: freshPhoto_fields)
  from zero_draws_never_complete [where rnd = exactDouble and n = N, OF z i0 id0 nu] up
  show False by blast
qed

lemma uploadTick_keeps_uploaded:
  "list_all2 (\<lambda>f f'. uf_id f' = uf_id f \<and> (uf_uploaded f \<longrightarrow> uf_uploaded f'))
     prev (snd (snd (uploadTick rnd fileId progress r prev)))"
  by (simp add: uploadTick_def Let_def list_all2_conv_all_nth)

text \<open>
  \<^bold>\<open>Claim C5, amended.\<close> For a local file that is not uploaded and has progress 0, and one
  upload interval followed on its own over draws from \<open>[0, 1)\<close>: the progress never
  decreases and never exceeds 100; after each tick it is the smaller of 100 and the sum of the
  increments so far, accumulated in floating point; the file is marked uploaded exactly when its
  progress is 100, which can only be at the last tick of the interval; and the interval ticks at
  every draw for as long as the file is not marked uploaded. How many ticks that takes depends
  on the draws and has no bound. No tick of any upload interval turns the uploaded flag of a
  file off.
\<close>

theorem upload_progress:
  assumes "roundingLaws rnd" and "\<forall>r\<in>set rs. 0 \<le> r \<and> r < 1" and "i < length prev"
    and "uf_id (prev ! i) = fileId" and "uf_progress (prev ! i) = 0"
    and "\<not> uf_uploaded (prev ! i)"
  shows "sorted (0 # map uf_progress (progressTrack rnd fileId 0 rs prev i)) \<and>
         (\<forall>f\<in>set (progressTrack rnd fileId 0 rs prev i).
            uf_progress f \<le> 100 \<and> (uf_uploaded f \<longleftrightarrow> uf_progress f = 100)) \<and>
         (\<forall>j<length (progressTrack rnd fileId 0 rs prev i).
            uf_progress (progressTrack rnd fileId 0 rs prev i ! j) =
              min 100 (accumulated rnd 0 (take (Suc j) rs))) \<and>
         (\<forall>f\<in>set (butlast (progressTrack rnd fileId 0 rs prev i)). \<not> uf_uploaded f) \<and>
         length (progressTrack rnd fileId 0 rs prev i) \<le> length rs \<and>
         ((\<forall>f\<in>set (progressTrack rnd fileId 0 rs prev i). \<not> uf_uploaded f) \<longrightarrow>
            length (progressTrack rnd fileId 0 rs prev i) = length rs) \<and>
         (\<forall>P k r s s'. step P (UploadTick k r) s = Some s' \<longrightarrow>
            list_all2 (\<lambda>f f'. uf_id f' = uf_id f \<and> (uf_uploaded f \<longrightarrow> uf_uploaded f'))
              (uploadedFiles s) (uploadedFiles s'))"
proof -
  have le: "uf_progress (prev ! i) \<le> 0" using assms(5) by simp
  have fx: "rnd 0 = 0" using assms(1) by (rule rounding_facts(1))
  have lt: "(0::real) < 100" by simp
  note g = progressTrack_facts [where rnd = rnd and progress = 0, OF assms(1-4) le fx lt assms(6),
      unfolded assms(5)]
  have keep: "list_all2 (\<lambda>f f'. uf_id f' = uf_id f \<and> (uf_uploaded f \<longrightarrow> uf_uploaded f'))
              (uploadedFiles s) (uploadedFiles s')"
    if "step P (UploadTick k r) s = Some s'" for P k r s s'
  proof -
    from that have "s' = commit (uploadIntervalTick P k r s)"
      by (simp add: step_def split: if_splits)
    then show ?thesis
      by (simp add: uploadIntervalTick_eq uploadTick_keeps_uploaded)
  qed
  have val: "\<forall>j<length (progressTrack rnd fileId 0 rs prev i).
            uf_progress (progressTrack rnd fileId 0 rs prev i ! j) =
              min 100 (accumulated rnd 0 (take (Suc j) rs))"
    using progressTrack_values [where rnd = rnd and progress = 0, OF assms(3,4)] by blast
  show ?thesis using g keep val by blast
qed

theorem upload_progress_witness:
  "roundingLaws exactDouble \<and> (0::real) \<le> 3/4 \<and> (3/4::real) < 1 \<and>
   0 < length [freshPhoto] \<and> uf_id ([freshPhoto] ! 0) = ''k3j9x0q2a'' \<and>
   uf_progress ([freshPhoto] ! 0) = 0 \<and> \<not> uf_uploaded ([freshPhoto] ! 0) \<and>
   map (\<lambda>f. (uf_progress f, uf_uploaded f))
     (progressTrack exactDouble ''k3j9x0q2a'' 0 [3/4, 3/4, 3/4, 3/4, 3/4, 3/4, 3/4]
        [freshPhoto] 0) =
     [(18.75, False), (37.5, False), (56.25, False), (75, False), (93.75, False), (100, True)] \<and>
   sorted (0 # map uf_progress
     (progressTrack exactDouble ''k3j9x0q2a'' 0 [3/4, 3/4, 3/4, 3/4, 3/4, 3/4, 3/4]
        [freshPhoto] 0)) \<and>
   length (progressTrack exactDouble ''k3j9x0q2a'' 0 [3/4, 3/4, 3/4, 3/4, 3/4, 3/4, 3/4]
        [freshPhoto] 0) \<le> 7"
proof -
  let ?rs = "[3/4, 3/4, 3/4, 3/4, 3/4, 3/4, 3/4 :: real]"
  have l: "roundingLaws exactDouble" by (rule roundingLaws_exactDouble)
  have h: "\<forall>r\<in>set ?rs. 0 \<le> r \<and> r < 1" "0 < length [freshPhoto]"
    "uf_id ([freshPhoto] ! 0) = ''k3j9x0q2a''" "uf_progress ([freshPhoto] ! 0) = 0"
    "\<not> uf_uploaded ([freshPhoto] ! 0)"
    by (simp_all add: freshPhoto_fields)
  have tr: "map (\<lambda>f. (uf_progress f, uf_uploaded f))
       (progressTrack exactDouble ''k3j9x0q2a'' 0 ?rs [freshPhoto] 0) =
     [(18.75, False), (37.5, False), (56.25, False), (75, False), (93.75, False), (100, True)]"
    by (simp add: progressTrack_def uploadTick_def exactDouble_def freshPhoto_fields Let_def)
  note t = upload_progress [where rnd = exactDouble, OF l h]
  from t have srt: "sorted (0 # map uf_progress
      (progressTrack exactDouble ''k3j9x0q2a'' 0 ?rs [freshPhoto] 0))"
    by blast
  from t have len: "length (progressTrack exactDouble ''k3j9x0q2a'' 0 ?rs [freshPhoto] 0)
      \<le> length ?rs"
    by blast
  have "(0::real) \<le> 3/4 \<and> (3/4::real) < 1" by simp
  then show ?thesis using l h(2-5) tr srt len by simp
qed

lemma acceptString_autoUpload [simp]:
  "acceptString (P\<lparr>autoUpload := b\<rparr>) = acceptString P"
  unfolding acceptString_def by simp

lemma validateFile_autoUpload [simp]:
  "validateFile (P\<lparr>autoUpload := b\<rparr>) file = validateFile P file"
  unfolding validateFile_def by simp

lemma generatePreview_autoUpload [simp]:
  "generatePreview (P\<lparr>autoUpload := b\<rparr>) file = generatePreview P file"
  by (simp add: generatePreview_def)

text \<open>Outside the amended claim: with \<^verbatim>\<open>autoUpload\<close> off, a second press of the upload
  button while the first interval is running starts a second interval on the same file, whose
  local progress starts at 0 again; its first tick lowers the progress stored for the file from
  18.75 to 6.25.\<close>

lemma second_interval_lowers_progress:
  "map_option (\<lambda>s. map uf_progress (uploadedFiles s))
     (run (defaultProps\<lparr>autoUpload := False\<rparr>) []
        [Add [photo] exampleId, ManualUpload, UploadTick 0 (3/4)]) = Some [18.75] \<and>
   map_option (\<lambda>s. map uf_progress (uploadedFiles s))
     (run (defaultProps\<lparr>autoUpload := False\<rparr>) []
        [Add [photo] exampleId, ManualUpload, UploadTick 0 (3/4), ManualUpload,
         UploadTick 1 (1/4)]) = Some [6.25]"
  by (simp add: eval)

end
